theory Spec2Isabelle
  imports Complex_Main
begin

section \<open>Strings, thrown values and the effect trace\<close>

text \<open>Decimal digits of a number, as a template literal prints an integer.\<close>

definition digit :: "nat \<Rightarrow> char" where
  "digit d = ''0123456789'' ! d"

fun show_nat :: "nat \<Rightarrow> string" where
  "show_nat n =
     (if n < 10 then [digit n]
      else show_nat (n div 10) @ [digit (n mod 10)])"

declare show_nat.simps [simp del]

definition show_int :: "int \<Rightarrow> string" where
  "show_int i = (if i < 0 then CHR ''-'' # show_nat (nat (- i)) else show_nat (nat i))"

text \<open>
  \<open>e || d\<close> for an optional string \<open>e\<close> (\<open>None\<close> is \<open>null\<close> or \<open>undefined\<close>) and a
  default: the empty string is falsy too.
\<close>

definition or_else :: "string option \<Rightarrow> string \<Rightarrow> string" where
  "or_else e d = (case e of None \<Rightarrow> d | Some s \<Rightarrow> if s = [] then d else s)"

text \<open>\<open>Array.prototype.join\<close> with a separator.\<close>

fun join :: "string \<Rightarrow> string list \<Rightarrow> string" where
  "join sep [] = []"
| "join sep [x] = x"
| "join sep (x # y # ys) = x @ sep @ join sep (y # ys)"

text \<open>
  A thrown value: an \<open>Error\<close> object with its message, or \<open>undefined\<close> (what
  \<open>throw lastError\<close> throws when no attempt was ever made).
\<close>

datatype thrown = Error string | Undefined

datatype level = LError | LWarn | LInfo | LDebug | LSuccess

text \<open>The request that \<open>client.post\<close> sends, with the proxy the client was built for.\<close>

record request =
  req_endpoint :: string
  req_signature :: string
  req_publicKey :: string
  req_token :: string
  req_authToken :: string
  req_proxy :: "string option"
  req_userAgent :: string

text \<open>
  What an operation does to the outside world: a logger call (level, message, wallet), a
  call of \<open>client.post\<close> with its request, a directory creation (\<open>fs.ensureDir\<close>), a
  file write (\<open>fs.writeFile\<close>: path, content).
\<close>

datatype io = Log level string string | HttpPost request | EnsureDir string | WriteFile string string

text \<open>
  The trace of a run: \<open>Invoked\<close> marks one call of the operation by a retry loop,
  \<open>Backoff\<close> the wait before the next attempt, \<open>Delay\<close> the random sleep between accounts.
\<close>

datatype event = Invoked | Backoff int | Delay int | Io io

section \<open>Retry with backoff: \<open>withRetry\<close>\<close>

record retryOptions =
  retries :: int
  minTimeout :: int
  maxTimeout :: int

text \<open>\<open>Math.round\<close>: the nearest integer, halves upwards.\<close>

definition math_round :: "real \<Rightarrow> int" where
  "math_round x = \<lfloor>x + 1 / 2\<rfloor>"

text \<open>
  The backoff delay of both retry loops, for the value \<open>r\<close> that \<open>Math.random()\<close>
  returned: \<open>Math.min(Math.round(r * Math.pow(2, retryCount) * minTimeout), maxTimeout)\<close>.
\<close>

definition backoffTime :: "real \<Rightarrow> nat \<Rightarrow> retryOptions \<Rightarrow> int" where
  "backoffTime r retryCount opts =
     min (math_round (r * 2 ^ retryCount * of_int (minTimeout opts))) (maxTimeout opts)"

text \<open>
  The loop of \<open>withRetry\<close>, entered with the current \<open>retryCount\<close> and \<open>lastError\<close>.
  The policy is the one the caller passes: the default of the parameter stands in for
  \<open>undefined\<close> only, and the configuration always carries a policy.
  \<open>operation i\<close> is what the call of the operation does when \<open>i\<close> calls have failed
  before it: it returns (\<open>Inr\<close>) or throws (\<open>Inl\<close>), with the effects it had.
  \<open>rnd i\<close> is the value of \<open>Math.random()\<close> drawn after the \<open>i\<close>-th failure.
\<close>

function withRetry_loop ::
  "(nat \<Rightarrow> (thrown + 'a) \<times> io list) \<Rightarrow> (nat \<Rightarrow> real) \<Rightarrow> retryOptions \<Rightarrow> nat \<Rightarrow> thrown
     \<Rightarrow> (thrown + 'a) \<times> event list" where
  "withRetry_loop operation rnd opts retryCount lastError =
     (if int retryCount \<le> retries opts then
        (case operation retryCount of
           (Inr v, ios) \<Rightarrow> (Inr v, Invoked # map Io ios)
         | (Inl err, ios) \<Rightarrow>
             (if int (retryCount + 1) > retries opts then
                (Inl err, Invoked # map Io ios)
              else
                (case withRetry_loop operation rnd opts (retryCount + 1) err of
                   (r, evs) \<Rightarrow>
                     (r, Invoked # map Io ios
                         @ [Io (Log LWarn
                              (''Retrying operation in ''
                                 @ show_int (backoffTime (rnd (retryCount + 1)) (retryCount + 1) opts)
                                 @ ''ms (attempt '' @ show_nat (retryCount + 1) @ ''/''
                                 @ show_int (retries opts) @ '')'') []),
                            Backoff (backoffTime (rnd (retryCount + 1)) (retryCount + 1) opts)]
                         @ evs))))
      else (Inl lastError, []))"
  by pat_completeness auto
termination
  by (relation "measure (\<lambda>(operation, rnd, opts, retryCount, lastError).
        nat (retries opts + 1 - int retryCount))") auto

declare withRetry_loop.simps [simp del]

definition withRetry ::
  "(nat \<Rightarrow> (thrown + 'a) \<times> io list) \<Rightarrow> (nat \<Rightarrow> real) \<Rightarrow> retryOptions
     \<Rightarrow> (thrown + 'a) \<times> event list" where
  "withRetry operation rnd opts = withRetry_loop operation rnd opts 0 Undefined"

text \<open>What a trace says: how often the operation was called, and the waits between.\<close>

definition invocations :: "event list \<Rightarrow> nat" where
  "invocations evs = length (filter (\<lambda>e. e = Invoked) evs)"

fun backoffs :: "event list \<Rightarrow> int list" where
  "backoffs [] = []"
| "backoffs (Backoff b # evs) = b # backoffs evs"
| "backoffs (e # evs) = backoffs evs"

section \<open>The eligibility request: \<open>checkPawsEligibility\<close>\<close>

record config_delay =
  delay_min :: int
  delay_max :: int

record config =
  enableProxy :: bool
  concurrency :: int
  delayBetweenAccounts :: config_delay
  retryOptions :: retryOptions
  apiEndpoint :: string
  signatureMessage :: string
  userAgent :: string

text \<open>
  The JSON body of a response, \<open>{success: bool, data?: number, error?: string}\<close> as the
  API sends it: a missing field is \<open>False\<close> or \<open>None\<close>. A response carries its status, its body (\<open>None\<close> when the
  body is \<open>null\<close>) and the text that \<open>JSON.stringify\<close> gives for the body.
\<close>

record body =
  success :: bool
  data :: "int option"
  error :: "string option"

record response =
  status :: int
  body :: "body option"
  json :: string

text \<open>
  What \<open>await client.post(...)\<close> does: it resolves with a response, or rejects with an
  error that has a \<open>response\<close> (an error status), has only a \<open>request\<close> (nothing came
  back), or has neither (the request could not be set up); the last two carry the
  error's message.
\<close>

datatype axios_result =
    Resolved response
  | RejectedResponse response
  | RejectedRequest string
  | RejectedSetup string

record signedData =
  signature :: string
  publicKey :: string

record eligibilityResult =
  eligible :: bool
  amount :: "int option"
  err :: "string option"

text \<open>
  \<open>createApiClient\<close>: with a proxy, \<open>new HttpsProxyAgent(proxy)\<close> is built, and
  \<open>proxyAgent\<close> says whether that constructor throws (\<open>Some\<close> message). The client is
  the proxy and the user agent it will send with.
\<close>

definition createApiClient ::
  "(string \<Rightarrow> string option) \<Rightarrow> string option \<Rightarrow> config
     \<Rightarrow> (thrown + string option \<times> string) \<times> io list" where
  "createApiClient proxyAgent proxy cfg =
     (case proxy of
        None \<Rightarrow> (Inr (None, userAgent cfg), [])
      | Some p \<Rightarrow>
          if p = [] then (Inr (None, userAgent cfg), [])
          else (case proxyAgent p of
                  Some msg \<Rightarrow> (Inl (Error msg), [Log LDebug (''Using proxy: '' @ p) []])
                | None \<Rightarrow> (Inr (Some p, userAgent cfg), [Log LDebug (''Using proxy: '' @ p) []])))"

text \<open>The message of the TypeError that reading \<open>.success\<close> of a \<open>null\<close> body raises.\<close>

definition null_body_message :: string where
  "null_body_message = ''Cannot read properties of null (reading 'success')''"

text \<open>
  One call of \<open>checkPawsEligibility\<close>, with \<open>sd\<close> for the parameter \<open>signedData\<close> and
  \<open>pk\<close> for the parameter \<open>publicKey\<close>. \<open>post req\<close> is the outcome of the POST of this
  call. The client is built before the \<open>try\<close> block, so what its constructor throws is
  thrown on as it is. The function returns a result (\<open>Inr\<close>) or throws (\<open>Inl\<close>).
\<close>

definition checkPawsEligibility ::
  "(string \<Rightarrow> string option) \<Rightarrow> (request \<Rightarrow> axios_result) \<Rightarrow> signedData \<Rightarrow> string
     \<Rightarrow> string option \<Rightarrow> config \<Rightarrow> (thrown + eligibilityResult) \<times> io list" where
  "checkPawsEligibility proxyAgent post sd pk proxy cfg =
     (case createApiClient proxyAgent proxy cfg of
        (Inl e, ios) \<Rightarrow> (Inl e, ios)
      | (Inr (agent, ua), ios) \<Rightarrow>
          (let payload = \<lparr>req_endpoint = apiEndpoint cfg, req_signature = signature sd,
                           req_publicKey = publicKey sd, req_token = signatureMessage cfg,
                           req_authToken = [], req_proxy = agent, req_userAgent = ua\<rparr>;
               sent = ios @ [Log LDebug ''Checking eligibility...'' pk, HttpPost payload]
           in case post payload of
                Resolved resp \<Rightarrow>
                  (case body resp of
                     None \<Rightarrow>
                       (Inl (Error (''Request error: '' @ null_body_message)),
                        sent @ [Log LError (''Request error: '' @ null_body_message) pk])
                   | Some b \<Rightarrow>
                       if success b then
                         (Inr \<lparr>eligible = True, amount = data b, err = None\<rparr>, sent)
                       else
                         (Inr \<lparr>eligible = False, amount = Some 0,
                               err = Some (or_else (error b) ''Unknown error'')\<rparr>, sent))
              | RejectedResponse resp \<Rightarrow>
                  if status resp = 400
                     \<and> (case body resp of None \<Rightarrow> False | Some b \<Rightarrow> error b = Some ''No OG drop'')
                  then (Inr \<lparr>eligible = False, amount = Some 0, err = Some ''No OG drop''\<rparr>, sent)
                  else
                    (Inr \<lparr>eligible = False, amount = Some 0,
                          err = Some (or_else (case body resp of None \<Rightarrow> None | Some b \<Rightarrow> error b)
                                        (''HTTP error '' @ show_int (status resp)))\<rparr>,
                     sent @ [Log LError (''API error: '' @ show_int (status resp) @ '' - ''
                                           @ json resp) pk])
              | RejectedRequest msg \<Rightarrow>
                  (Inl (Error (''No response from API: '' @ msg)),
                   sent @ [Log LError (''No response from API: '' @ msg) pk])
              | RejectedSetup msg \<Rightarrow>
                  (Inl (Error (''Request error: '' @ msg)),
                   sent @ [Log LError (''Request error: '' @ msg) pk])))"

section \<open>Retry of the request: \<open>checkEligibilityWithRetry\<close>\<close>

text \<open>The message of the TypeError that reading \<open>.message\<close> of \<open>undefined\<close> raises.\<close>

definition undefined_message :: string where
  "undefined_message = ''Cannot read properties of undefined (reading 'message')''"

text \<open>
  The loop of \<open>checkEligibilityWithRetry\<close>. \<open>post i\<close> is the outcome of the POST made
  when \<open>i\<close> calls have failed before, \<open>rnd i\<close> the value of \<open>Math.random()\<close> drawn
  after the \<open>i\<close>-th failure.
\<close>

function checkEligibilityWithRetry_loop ::
  "(string \<Rightarrow> string option) \<Rightarrow> (nat \<Rightarrow> request \<Rightarrow> axios_result) \<Rightarrow> (nat \<Rightarrow> real)
     \<Rightarrow> signedData \<Rightarrow> string \<Rightarrow> string option \<Rightarrow> config \<Rightarrow> retryOptions \<Rightarrow> nat \<Rightarrow> thrown
     \<Rightarrow> (thrown + eligibilityResult) \<times> event list" where
  "checkEligibilityWithRetry_loop proxyAgent post rnd sd pk proxy cfg opts retryCount lastError =
     (if int retryCount \<le> retries opts then
        (case checkPawsEligibility proxyAgent (post retryCount) sd pk proxy cfg of
           (Inr v, ios) \<Rightarrow> (Inr v, Invoked # map Io ios)
         | (Inl e, ios) \<Rightarrow>
             (if int (retryCount + 1) > retries opts then
                (case e of
                   Error msg \<Rightarrow>
                     (Inl e, Invoked # map Io ios
                        @ [Io (Log LError (''Failed after '' @ show_nat (retryCount + 1)
                                 @ '' attempts: '' @ msg) pk)])
                 | Undefined \<Rightarrow> (Inl (Error undefined_message), Invoked # map Io ios))
              else
                (case checkEligibilityWithRetry_loop proxyAgent post rnd sd pk proxy cfg opts
                        (retryCount + 1) e of
                   (r, evs) \<Rightarrow>
                     (r, Invoked # map Io ios
                         @ [Io (Log LWarn
                              (''Retrying API request in ''
                                 @ show_int (backoffTime (rnd (retryCount + 1)) (retryCount + 1) opts)
                                 @ ''ms (attempt '' @ show_nat (retryCount + 1) @ ''/''
                                 @ show_int (retries opts) @ '')'') pk),
                            Backoff (backoffTime (rnd (retryCount + 1)) (retryCount + 1) opts)]
                         @ evs))))
      else (Inl lastError, []))"
  by pat_completeness auto
termination
  by (relation "measure (\<lambda>(proxyAgent, post, rnd, sd, pk, proxy, cfg, opts, retryCount, lastError).
        nat (retries opts + 1 - int retryCount))") auto

declare checkEligibilityWithRetry_loop.simps [simp del]

definition checkEligibilityWithRetry ::
  "(string \<Rightarrow> string option) \<Rightarrow> (nat \<Rightarrow> request \<Rightarrow> axios_result) \<Rightarrow> (nat \<Rightarrow> real)
     \<Rightarrow> signedData \<Rightarrow> string \<Rightarrow> string option \<Rightarrow> config \<Rightarrow> retryOptions
     \<Rightarrow> (thrown + eligibilityResult) \<times> event list" where
  "checkEligibilityWithRetry proxyAgent post rnd sd pk proxy cfg opts =
     checkEligibilityWithRetry_loop proxyAgent post rnd sd pk proxy cfg opts 0 Undefined"

section \<open>Keypairs and signatures\<close>

type_synonym bytes = "nat list"

record keypair =
  publicKeyBase58 :: string
  secretKey :: bytes

text \<open>
  The libraries the checker calls, as functions: \<open>bs58.decode\<close>,
  \<open>Keypair.fromSecretKey\<close> and \<open>nacl.sign.detached\<close> (on the encoded message) return
  (\<open>Inr\<close>) or throw (\<open>Inl\<close>, the error's message); \<open>bs58.encode\<close> returns;
  \<open>proxyAgent\<close> is the constructor of the proxy agent (\<open>Some\<close> message when it throws).
\<close>

record libs =
  bs58_decode :: "string \<Rightarrow> string + bytes"
  fromSecretKey :: "bytes \<Rightarrow> string + keypair"
  sign_detached :: "string \<Rightarrow> bytes \<Rightarrow> string + bytes"
  bs58_encode :: "bytes \<Rightarrow> string"
  proxyAgent :: "string \<Rightarrow> string option"

text \<open>\<open>createKeypairFromPrivateKey\<close>: the keypair, or \<open>null\<close> after logging the error.\<close>

definition createKeypairFromPrivateKey :: "libs \<Rightarrow> string \<Rightarrow> keypair option \<times> io list" where
  "createKeypairFromPrivateKey l privateKeyBase58 =
     (case bs58_decode l privateKeyBase58 of
        Inl msg \<Rightarrow> (None, [Log LError (''Failed to create keypair: '' @ msg) []])
      | Inr privateKeyBytes \<Rightarrow>
          (case fromSecretKey l privateKeyBytes of
             Inl msg \<Rightarrow> (None, [Log LError (''Failed to create keypair: '' @ msg) []])
           | Inr kp \<Rightarrow> (Some kp, [])))"

text \<open>\<open>signMessage\<close>: the signature and the public key, or \<open>null\<close> after logging the error.\<close>

definition signMessage :: "libs \<Rightarrow> keypair \<Rightarrow> string \<Rightarrow> signedData option \<times> io list" where
  "signMessage l kp message =
     (case sign_detached l message (secretKey kp) of
        Inl msg \<Rightarrow> (None, [Log LError (''Failed to sign message: '' @ msg) []])
      | Inr sig \<Rightarrow>
          (Some \<lparr>signature = bs58_encode l sig, publicKey = publicKeyBase58 kp\<rparr>, []))"

section \<open>One wallet: \<open>checkWalletEligibility\<close>\<close>

text \<open>
  The object that \<open>checkWalletEligibility\<close> returns; a property that the object literal
  does not set reads as \<open>undefined\<close>, here \<open>None\<close>. \<open>main\<close> adds \<open>privateKey\<close>, here
  \<open>res_privateKey\<close>.
\<close>

record walletResult =
  res_publicKey :: string
  res_eligible :: bool
  res_amount :: "int option"
  res_error :: "string option"

record outcome = walletResult +
  res_privateKey :: string

text \<open>
  What the outside world does during one wallet's task: the outcome of each POST, and the
  values of \<open>Math.random()\<close> drawn by the three retry loops and by the sleep after it.
\<close>

record task =
  post :: "nat \<Rightarrow> request \<Rightarrow> axios_result"
  rndKeypair :: "nat \<Rightarrow> real"
  rndSign :: "nat \<Rightarrow> real"
  rndApi :: "nat \<Rightarrow> real"
  rndSleep :: real

text \<open>
  The \<open>catch\<close> block of \<open>checkWalletEligibility\<close>: reading \<open>error.message\<close> of a thrown
  \<open>undefined\<close> raises a TypeError inside the handler, and the function rejects (\<open>Inl\<close>).
\<close>

definition catchWallet ::
  "string \<Rightarrow> thrown \<Rightarrow> event list \<Rightarrow> (string + walletResult) \<times> event list" where
  "catchWallet privateKey e evs =
     (case e of
        Error msg \<Rightarrow>
          (Inr \<lparr>res_publicKey = (if privateKey \<noteq> [] then take 4 privateKey @ ''...'' else ''unknown''),
                res_eligible = False, res_amount = None, res_error = Some msg\<rparr>,
           evs @ [Io (Log LError (''Failed to check eligibility: '' @ msg) [])])
      | Undefined \<Rightarrow> (Inl undefined_message, evs))"

text \<open>
  The two arrow functions that \<open>checkWalletEligibility\<close> hands to \<open>withRetry\<close>:
  \<open>() => createKeypairFromPrivateKey(privateKey)\<close> and
  \<open>() => signMessage(keypair, config.signatureMessage)\<close>. Both return what the function
  returns, at every call.
\<close>

definition keypairOperation :: "libs \<Rightarrow> string \<Rightarrow> nat \<Rightarrow> (thrown + keypair option) \<times> io list" where
  "keypairOperation l privateKey i =
     (case createKeypairFromPrivateKey l privateKey of (kp, ios) \<Rightarrow> (Inr kp, ios))"

definition signOperation ::
  "libs \<Rightarrow> keypair \<Rightarrow> string \<Rightarrow> nat \<Rightarrow> (thrown + signedData option) \<times> io list" where
  "signOperation l kp message i =
     (case signMessage l kp message of (sd, ios) \<Rightarrow> (Inr sd, ios))"

definition checkWalletEligibility ::
  "libs \<Rightarrow> task \<Rightarrow> string \<Rightarrow> string option \<Rightarrow> config \<Rightarrow> (string + walletResult) \<times> event list" where
  "checkWalletEligibility l t privateKey proxy cfg =
     (case withRetry (keypairOperation l privateKey) (rndKeypair t) (retryOptions cfg) of
        (Inl e, evs1) \<Rightarrow> catchWallet privateKey e evs1
      | (Inr None, evs1) \<Rightarrow>
          (Inr \<lparr>res_publicKey = ''unknown'', res_eligible = False, res_amount = None,
                res_error = Some ''Failed to create keypair''\<rparr>, evs1)
      | (Inr (Some kp), evs1) \<Rightarrow>
          (case withRetry (signOperation l kp (signatureMessage cfg)) (rndSign t)
                  (retryOptions cfg) of
             (Inl e, evs2) \<Rightarrow> catchWallet privateKey e (evs1 @ evs2)
           | (Inr None, evs2) \<Rightarrow>
               (Inr \<lparr>res_publicKey = publicKeyBase58 kp, res_eligible = False, res_amount = None,
                     res_error = Some ''Failed to sign message''\<rparr>, evs1 @ evs2)
           | (Inr (Some sd), evs2) \<Rightarrow>
               (case checkEligibilityWithRetry (proxyAgent l) (post t) (rndApi t) sd
                       (publicKeyBase58 kp) proxy cfg (retryOptions cfg) of
                  (Inl e, evs3) \<Rightarrow> catchWallet privateKey e (evs1 @ evs2 @ evs3)
                | (Inr r, evs3) \<Rightarrow>
                    (Inr \<lparr>res_publicKey = publicKeyBase58 kp, res_eligible = eligible r,
                          res_amount = amount r, res_error = err r\<rparr>,
                     evs1 @ evs2 @ evs3 @
                       [Io (if eligible r
                            then Log LSuccess
                                   (''Eligible for ''
                                      @ (case amount r of None \<Rightarrow> ''undefined'' | Some n \<Rightarrow> show_int n)
                                      @ '' tokens'') (publicKeyBase58 kp)
                            else Log LWarn (''Not eligible: '' @ or_else (err r) ''Unknown reason'')
                                   (publicKeyBase58 kp))]))))"

section \<open>Writing the results: \<open>saveResults\<close>\<close>

text \<open>
  The file system: \<open>ensureDir path\<close> and \<open>writeFile path content\<close> succeed (\<open>None\<close>) or
  throw (\<open>Some\<close> message).
\<close>

record fs =
  ensureDir :: "string \<Rightarrow> string option"
  writeFile :: "string \<Rightarrow> string \<Rightarrow> string option"

definition eligibleWallets :: "outcome list \<Rightarrow> string list" where
  "eligibleWallets results =
     map (\<lambda>r. res_privateKey r @ '':'' @ res_publicKey r @ '':''
               @ (case res_amount r of None \<Rightarrow> ''undefined'' | Some n \<Rightarrow> show_int n))
       (filter (\<lambda>r. res_eligible r) results)"

definition notEligibleWallets :: "outcome list \<Rightarrow> string list" where
  "notEligibleWallets results =
     map (\<lambda>r. res_privateKey r @ '':'' @ res_publicKey r)
       (filter (\<lambda>r. \<not> res_eligible r) results)"

definition newline :: string where
  "newline = [CHR 0x0A]"

definition saveResults :: "fs \<Rightarrow> outcome list \<Rightarrow> io list" where
  "saveResults f results =
     (case ensureDir f ''result'' of
        Some msg \<Rightarrow> [Log LError (''Failed to save results: '' @ msg) []]
      | None \<Rightarrow>
          EnsureDir ''result'' #
          (let el = eligibleWallets results;
               ne = notEligibleWallets results;
               elContent = (if length el > 0 then join newline el else []);
               neContent = (if length ne > 0 then join newline ne else [])
           in case writeFile f ''result/eligible.txt'' elContent of
                Some msg \<Rightarrow> [Log LError (''Failed to save results: '' @ msg) []]
              | None \<Rightarrow>
                  WriteFile ''result/eligible.txt'' elContent #
                  (if length el > 0
                   then Log LSuccess (show_nat (length el)
                          @ '' eligible wallets (pk:address:amount format) saved to result/eligible.txt'') []
                   else Log LInfo ''No eligible wallets found'' []) #
                  (case writeFile f ''result/noteligible.txt'' neContent of
                     Some msg \<Rightarrow> [Log LError (''Failed to save results: '' @ msg) []]
                   | None \<Rightarrow>
                       [WriteFile ''result/noteligible.txt'' neContent,
                        if length ne > 0
                        then Log LInfo (show_nat (length ne)
                               @ '' non-eligible wallets (pk:address format) saved to result/noteligible.txt'') []
                        else Log LInfo ''No non-eligible wallets found'' []])))"

section \<open>The run: \<open>main\<close>\<close>

text \<open>The proxy of the wallet at an input index.\<close>

definition assignProxy :: "config \<Rightarrow> string list \<Rightarrow> nat \<Rightarrow> string option" where
  "assignProxy cfg proxies index =
     (if enableProxy cfg \<and> length proxies > 0
      then Some (proxies ! (index mod length proxies))
      else None)"

text \<open>\<open>randomSleep\<close>, for the value \<open>r\<close> that \<open>Math.random()\<close> returned.\<close>

definition randomSleep :: "int \<Rightarrow> int \<Rightarrow> real \<Rightarrow> event list" where
  "randomSleep mn mx r =
     (let sleepTime = \<lfloor>r * of_int (mx - mn + 1) + of_int mn\<rfloor>
      in [Io (Log LDebug (''Sleeping for '' @ show_int sleepTime @ ''ms'') []), Delay sleepTime])"

text \<open>
  The task that \<open>main\<close> queues for one private key: it rejects (\<open>Inl\<close>) when
  \<open>checkWalletEligibility\<close> does, before anything is pushed; otherwise it pushes the
  result, with the private key added, and sleeps unless the wallet is the last of the input.
\<close>

definition walletTask ::
  "libs \<Rightarrow> task \<Rightarrow> config \<Rightarrow> string list \<Rightarrow> string list \<Rightarrow> string \<Rightarrow> nat
     \<Rightarrow> (string + outcome) \<times> event list" where
  "walletTask l t cfg proxies privateKeys privateKey index =
     (case checkWalletEligibility l t privateKey (assignProxy cfg proxies index) cfg of
        (Inl msg, evs) \<Rightarrow> (Inl msg, evs)
      | (Inr result, evs) \<Rightarrow>
          (Inr \<lparr>res_publicKey = res_publicKey result, res_eligible = res_eligible result,
                res_amount = res_amount result, res_error = res_error result,
                res_privateKey = privateKey\<rparr>,
           evs @ (if int index < int (length privateKeys) - 1
                  then randomSleep (delay_min (delayBetweenAccounts cfg))
                         (delay_max (delayBetweenAccounts cfg)) (rndSleep t)
                  else [])))"

text \<open>\<open>privateKeys.map((privateKey, index) => ...)\<close>: one task per key, in input order.\<close>

definition tasks ::
  "libs \<Rightarrow> (nat \<Rightarrow> task) \<Rightarrow> config \<Rightarrow> string list \<Rightarrow> string list
     \<Rightarrow> ((string + outcome) \<times> event list) list" where
  "tasks l world cfg proxies privateKeys =
     map (\<lambda>(privateKey, index). walletTask l (world index) cfg proxies privateKeys privateKey index)
       (zip privateKeys [0..<length privateKeys])"

text \<open>
  The limiter runs every queued task once; \<open>order\<close> lists the input indices in the order
  in which the tasks complete, which is the order of the pushes to \<open>results\<close>.
\<close>

definition completion_order :: "nat \<Rightarrow> nat list \<Rightarrow> bool" where
  "completion_order n order = (distinct order \<and> set order = set [0..<n])"

text \<open>The first task, in completion order, that rejected.\<close>

fun first_rejection :: "((string + outcome) \<times> event list) list \<Rightarrow> string option" where
  "first_rejection [] = None"
| "first_rejection ((Inl msg, evs) # ts) = Some msg"
| "first_rejection ((Inr r, evs) # ts) = first_rejection ts"

text \<open>The array \<open>results\<close> after the pushes.\<close>

fun pushed :: "((string + outcome) \<times> event list) list \<Rightarrow> outcome list" where
  "pushed [] = []"
| "pushed ((Inl msg, evs) # ts) = pushed ts"
| "pushed ((Inr r, evs) # ts) = r # pushed ts"

text \<open>The statistics that \<open>main\<close> logs after saving.\<close>

definition totalAmount :: "outcome list \<Rightarrow> int" where
  "totalAmount results =
     foldl (\<lambda>sum r. sum + (case res_amount r of None \<Rightarrow> 0 | Some n \<Rightarrow> n)) 0 results"

definition summary :: "outcome list \<Rightarrow> event list" where
  "summary results =
     (let eligibleCount = length (filter (\<lambda>r. res_eligible r) results)
      in map (\<lambda>m. Io (Log LInfo m []))
           [''===================== Summary ====================='',
            ''Total wallets: '' @ show_nat (length results),
            ''Eligible wallets: '' @ show_nat eligibleCount,
            ''Not eligible: '' @ show_nat (length results - eligibleCount),
            ''Total tokens: '' @ show_int (totalAmount results),
            ''==================================================''] @
         [Io (Log LSuccess ''All wallets processed successfully. Bot execution completed.'' [])])"

text \<open>The message of the TypeError of \<open>pLimit\<close> for a concurrency below 1.\<close>

definition plimit_message :: string where
  "plimit_message = ''Expected `concurrency` to be a number from 1 and up''"

text \<open>
  How a run ends: at the check for an empty key list, in the \<open>catch\<close> block of \<open>main\<close>
  (with the error's message), or after the summary, with the array \<open>results\<close>.
\<close>

datatype run = AbortedNoKeys | AbortedError string | Completed "outcome list"

text \<open>
  \<open>main\<close>. What \<open>readConfig\<close>, \<open>readPrivateKeys\<close> and \<open>readProxies\<close> return or throw
  is given (\<open>readProxies\<close> never throws). The trace lists the events of the tasks one task
  after the other, in completion order. The \<open>catch\<close> block logs the error's stack as
  well; the trace has the message line only.
\<close>

definition main ::
  "libs \<Rightarrow> (nat \<Rightarrow> task) \<Rightarrow> fs \<Rightarrow> string + config \<Rightarrow> string + string list \<Rightarrow> string list
     \<Rightarrow> nat list \<Rightarrow> run \<times> event list" where
  "main l world f readConfig readPrivateKeys readProxies order =
     (case readConfig of
        Inl msg \<Rightarrow> (AbortedError msg, [Io (Log LError (''Main process error: '' @ msg) [])])
      | Inr cfg \<Rightarrow>
          (case readPrivateKeys of
             Inl msg \<Rightarrow>
               (AbortedError msg,
                [Io (Log LInfo ''Configuration loaded'' []),
                 Io (Log LError (''Main process error: '' @ msg) [])])
           | Inr privateKeys \<Rightarrow>
               if length privateKeys = 0 then
                 (AbortedNoKeys,
                  [Io (Log LInfo ''Configuration loaded'' []),
                   Io (Log LError ''No private keys found in pk.txt'' [])])
               else
                 (let proxies = (if enableProxy cfg then readProxies else []);
                      setup =
                        Io (Log LInfo ''Configuration loaded'' []) #
                        (if enableProxy cfg then
                           (if length proxies = 0 then
                              [Io (Log LWarn ''Proxy is enabled but no proxies found in proxy.txt, running without proxies'' [])]
                            else if length proxies < length privateKeys then
                              [Io (Log LWarn (''Only '' @ show_nat (length proxies) @ '' proxies for ''
                                     @ show_nat (length privateKeys)
                                     @ '' wallets, some wallets will share proxies'') [])]
                            else [])
                         else [])
                  in if concurrency cfg < 1 then
                       (AbortedError plimit_message,
                        setup @ [Io (Log LError (''Main process error: '' @ plimit_message) [])])
                     else
                       (let completed = map (\<lambda>i. tasks l world cfg proxies privateKeys ! i) order;
                            evs = setup
                                  @ [Io (Log LInfo (''Starting to process ''
                                           @ show_nat (length privateKeys) @ '' wallets'') [])]
                                  @ concat (map snd completed)
                        in case first_rejection completed of
                             Some msg \<Rightarrow>
                               (AbortedError msg,
                                evs @ [Io (Log LError (''Main process error: '' @ msg) [])])
                           | None \<Rightarrow>
                               (let results = pushed completed
                                in (Completed results,
                                    evs @ map Io (saveResults f results) @ summary results))))))"

text \<open>What a trace says about the network and the files.\<close>

fun posts :: "event list \<Rightarrow> request list" where
  "posts [] = []"
| "posts (Io (HttpPost req) # evs) = req # posts evs"
| "posts (e # evs) = posts evs"

fun writes :: "event list \<Rightarrow> (string \<times> string) list" where
  "writes [] = []"
| "writes (Io (WriteFile path content) # evs) = (path, content) # writes evs"
| "writes (e # evs) = writes evs"

text \<open>
  The number of lines of a file's content, as \<open>saveResults\<close> writes it: lines are
  separated by a line feed, the last line has none, and the empty content has no line.
\<close>

definition line_count :: "string \<Rightarrow> nat" where
  "line_count content = (if content = [] then 0 else Suc (count_list content (CHR 0x0A)))"

section \<open>A concrete run\<close>

text \<open>
  A small world to run the definitions on: a retry policy with two retries, an operation
  that throws once and then returns, libraries that reject a key with a character outside
  the base-58 alphabet, and an API that never answers.
\<close>

definition ex_retryOptions :: retryOptions where
  "ex_retryOptions = \<lparr>retries = 2, minTimeout = 1000, maxTimeout = 5000\<rparr>"

definition ex_operation :: "nat \<Rightarrow> (thrown + nat) \<times> io list" where
  "ex_operation i = (if i < 1 then (Inl (Error ''boom''), []) else (Inr 7, []))"

definition ex_rnd :: "nat \<Rightarrow> real" where
  "ex_rnd i = 1 / 2"

definition ex_config :: config where
  "ex_config =
     \<lparr>enableProxy = True, concurrency = 1,
      delayBetweenAccounts = \<lparr>delay_min = 3000, delay_max = 7000\<rparr>,
      retryOptions = ex_retryOptions,
      apiEndpoint = ''https://api.paws.community/v1/wallet/solana/og'',
      signatureMessage = ''PAWS'', userAgent = ''Mozilla/5.0''\<rparr>"

definition ex_libs :: libs where
  "ex_libs =
     \<lparr>bs58_decode = (\<lambda>s. if CHR ''!'' \<in> set s then Inl ''Non-base58 character''
                          else Inr (map of_char s)),
      fromSecretKey = (\<lambda>b. Inr \<lparr>publicKeyBase58 = ''PUB1'', secretKey = b\<rparr>),
      sign_detached = (\<lambda>message key. Inr key),
      bs58_encode = (\<lambda>b. ''SIG1''),
      proxyAgent = (\<lambda>p. None)\<rparr>"

definition ex_task :: task where
  "ex_task =
     \<lparr>post = (\<lambda>i req. RejectedRequest ''timeout of 30000ms exceeded''),
      rndKeypair = ex_rnd, rndSign = ex_rnd, rndApi = ex_rnd, rndSleep = 1 / 2\<rparr>"

definition ex_world :: "nat \<Rightarrow> task" where
  "ex_world i = ex_task"

definition ex_fs :: fs where
  "ex_fs = \<lparr>ensureDir = (\<lambda>path. None), writeFile = (\<lambda>path content. None)\<rparr>"


definition ex_signed :: signedData where
  "ex_signed = \<lparr>signature = ''SIG1'', publicKey = ''PUB1''\<rparr>"


section \<open>Reading traces\<close>

lemma invocations_Nil [simp]: "invocations [] = 0"
  by (simp add: invocations_def)

lemma invocations_Cons [simp]:
  "invocations (e # evs) = (if e = Invoked then Suc (invocations evs) else invocations evs)"
  by (simp add: invocations_def)

lemma invocations_append [simp]: "invocations (xs @ ys) = invocations xs + invocations ys"
  by (simp add: invocations_def)

lemma invocations_map_Io [simp]: "invocations (map Io ios) = 0"
  by (induction ios) simp_all

lemma backoffs_append [simp]: "backoffs (xs @ ys) = backoffs xs @ backoffs ys"
  by (induction xs rule: backoffs.induct) simp_all

lemma backoffs_map_Io [simp]: "backoffs (map Io ios) = []"
  by (induction ios) simp_all

lemma posts_append [simp]: "posts (xs @ ys) = posts xs @ posts ys"
  by (induction xs rule: posts.induct) simp_all

lemma writes_append [simp]: "writes (xs @ ys) = writes xs @ writes ys"
  by (induction xs rule: writes.induct) simp_all

lemma backoffTime_le: "backoffTime r n opts \<le> maxTimeout opts"
  by (simp add: backoffTime_def)

section \<open>The loop of \<open>withRetry\<close>, case by case\<close>

lemma withRetry_loop_stop:
  "\<not> int retryCount \<le> retries opts \<Longrightarrow>
   withRetry_loop operation rnd opts retryCount lastError = (Inl lastError, [])"
  by (subst withRetry_loop.simps) simp

lemma withRetry_loop_success:
  "int retryCount \<le> retries opts \<Longrightarrow> operation retryCount = (Inr v, ios) \<Longrightarrow>
   withRetry_loop operation rnd opts retryCount lastError = (Inr v, Invoked # map Io ios)"
  by (subst withRetry_loop.simps) simp

lemma withRetry_loop_give_up:
  "int retryCount \<le> retries opts \<Longrightarrow> operation retryCount = (Inl e, ios) \<Longrightarrow>
   retries opts < int (retryCount + 1) \<Longrightarrow>
   withRetry_loop operation rnd opts retryCount lastError = (Inl e, Invoked # map Io ios)"
  by (subst withRetry_loop.simps) simp

lemma withRetry_loop_retry:
  "int retryCount \<le> retries opts \<Longrightarrow> operation retryCount = (Inl e, ios) \<Longrightarrow>
   \<not> retries opts < int (retryCount + 1) \<Longrightarrow>
   \<exists>m. withRetry_loop operation rnd opts retryCount lastError =
     (fst (withRetry_loop operation rnd opts (retryCount + 1) e),
      Invoked # map Io ios
        @ [Io (Log LWarn m []), Backoff (backoffTime (rnd (retryCount + 1)) (retryCount + 1) opts)]
        @ snd (withRetry_loop operation rnd opts (retryCount + 1) e))"
  by (subst withRetry_loop.simps) (simp split: prod.splits)

text \<open>The four cases as one rule for proofs about the loop.\<close>

lemma withRetry_loop_cases [case_names stop success give_up retry]:
  assumes "\<not> int retryCount \<le> retries opts \<Longrightarrow>
             withRetry_loop operation rnd opts retryCount lastError = (Inl lastError, []) \<Longrightarrow> P"
    and "\<And>v ios. int retryCount \<le> retries opts \<Longrightarrow> operation retryCount = (Inr v, ios) \<Longrightarrow>
             withRetry_loop operation rnd opts retryCount lastError
               = (Inr v, Invoked # map Io ios) \<Longrightarrow> P"
    and "\<And>e ios. int retryCount \<le> retries opts \<Longrightarrow> operation retryCount = (Inl e, ios) \<Longrightarrow>
             retries opts < int (retryCount + 1) \<Longrightarrow>
             withRetry_loop operation rnd opts retryCount lastError
               = (Inl e, Invoked # map Io ios) \<Longrightarrow> P"
    and "\<And>e ios m. int retryCount \<le> retries opts \<Longrightarrow> operation retryCount = (Inl e, ios) \<Longrightarrow>
             \<not> retries opts < int (retryCount + 1) \<Longrightarrow>
             withRetry_loop operation rnd opts retryCount lastError =
               (fst (withRetry_loop operation rnd opts (retryCount + 1) e),
                Invoked # map Io ios
                  @ [Io (Log LWarn m []), Backoff (backoffTime (rnd (retryCount + 1)) (retryCount + 1) opts)]
                  @ snd (withRetry_loop operation rnd opts (retryCount + 1) e)) \<Longrightarrow> P"
  shows P
proof (cases "int retryCount \<le> retries opts")
  case False
  show ?thesis
    by (rule assms(1) [OF False withRetry_loop_stop [OF False]])
next
  case True
  obtain res ios where op: "operation retryCount = (res, ios)"
    by (cases "operation retryCount")
  show ?thesis
  proof (cases res)
    case (Inr v)
    with op have op': "operation retryCount = (Inr v, ios)" by simp
    show ?thesis
      by (rule assms(2) [OF True op' withRetry_loop_success [where operation = operation and retryCount = retryCount, OF True op']])
  next
    case (Inl e)
    with op have op': "operation retryCount = (Inl e, ios)" by simp
    show ?thesis
    proof (cases "retries opts < int (retryCount + 1)")
      case lt: True
      show ?thesis
        by (rule assms(3) [OF True op' lt withRetry_loop_give_up [where operation = operation and retryCount = retryCount, OF True op' lt]])
    next
      case False
      from withRetry_loop_retry [where operation = operation and retryCount = retryCount and rnd = rnd and lastError = lastError, OF True op' False]
      obtain m where "withRetry_loop operation rnd opts retryCount lastError =
               (fst (withRetry_loop operation rnd opts (retryCount + 1) e),
                Invoked # map Io ios
                  @ [Io (Log LWarn m []), Backoff (backoffTime (rnd (retryCount + 1)) (retryCount + 1) opts)]
                  @ snd (withRetry_loop operation rnd opts (retryCount + 1) e))" ..
      then show ?thesis
        by (rule assms(4) [OF True op' False])
    qed
  qed
qed

lemma withRetry_loop_invocations_le:
  "invocations (snd (withRetry_loop operation rnd opts retryCount lastError))
     \<le> nat (retries opts + 1 - int retryCount)"
proof (induction operation rnd opts retryCount lastError rule: withRetry_loop.induct)
  case (1 operation rnd opts retryCount lastError)
  show ?case
  proof (cases operation rnd opts retryCount lastError rule: withRetry_loop_cases)
    case stop
    then show ?thesis by simp
  next
    case (success v ios)
    then show ?thesis by simp
  next
    case (give_up e ios)
    then show ?thesis by simp
  next
    case (retry e ios m)
    from "1.IH" [OF retry(1) retry(2) [symmetric] refl] retry(3)
    have "invocations (snd (withRetry_loop operation rnd opts (retryCount + 1) e))
            \<le> nat (retries opts + 1 - int (retryCount + 1))" by simp
    moreover from retry(4)
    have "invocations (snd (withRetry_loop operation rnd opts retryCount lastError))
          = Suc (invocations (snd (withRetry_loop operation rnd opts (retryCount + 1) e)))"
      by simp
    ultimately show ?thesis using retry(3) by linarith
  qed
qed


lemma withRetry_loop_backoffs_le:
  "b \<in> set (backoffs (snd (withRetry_loop operation rnd opts retryCount lastError)))
     \<Longrightarrow> b \<le> maxTimeout opts"
proof (induction operation rnd opts retryCount lastError rule: withRetry_loop.induct)
  case (1 operation rnd opts retryCount lastError)
  show ?case
  proof (cases operation rnd opts retryCount lastError rule: withRetry_loop_cases)
    case stop
    with "1.prems" show ?thesis by simp
  next
    case (success v ios)
    with "1.prems" show ?thesis by simp
  next
    case (give_up e ios)
    with "1.prems" show ?thesis by simp
  next
    case (retry e ios m)
    from "1.prems" retry(4)
    have "b = backoffTime (rnd (retryCount + 1)) (retryCount + 1) opts
          \<or> b \<in> set (backoffs (snd (withRetry_loop operation rnd opts (retryCount + 1) e)))"
      by simp
    then show ?thesis
    proof
      assume "b = backoffTime (rnd (retryCount + 1)) (retryCount + 1) opts"
      then show ?thesis by (simp add: backoffTime_le)
    next
      assume "b \<in> set (backoffs (snd (withRetry_loop operation rnd opts (retryCount + 1) e)))"
      with "1.IH" [OF retry(1) retry(2) [symmetric] refl] retry(3) show ?thesis by simp
    qed
  qed
qed

lemma withRetry_loop_first_success:
  "retryCount \<le> i \<Longrightarrow> int i \<le> retries opts \<Longrightarrow>
   (\<forall>j. retryCount \<le> j \<and> j < i \<longrightarrow> isl (fst (operation j))) \<Longrightarrow>
   fst (operation i) = Inr v \<Longrightarrow>
   fst (withRetry_loop operation rnd opts retryCount lastError) = Inr v
   \<and> invocations (snd (withRetry_loop operation rnd opts retryCount lastError)) = i - retryCount + 1
   \<and> length (backoffs (snd (withRetry_loop operation rnd opts retryCount lastError)))
       = i - retryCount"
proof (induction operation rnd opts retryCount lastError rule: withRetry_loop.induct)
  case (1 operation rnd opts retryCount lastError)
  show ?case
  proof (cases operation rnd opts retryCount lastError rule: withRetry_loop_cases)
    case stop
    with "1.prems" show ?thesis by simp
  next
    case (success v' ios)
    have "retryCount = i"
    proof (rule ccontr)
      assume "retryCount \<noteq> i"
      with "1.prems"(1,3) have "isl (fst (operation retryCount))" by simp
      with success(2) show False by simp
    qed
    with success "1.prems"(4) show ?thesis by simp
  next
    case (give_up e ios)
    with "1.prems"(1,2) have "retryCount = i" by simp
    with give_up(2) "1.prems"(4) show ?thesis by simp
  next
    case (retry e ios m)
    have "retryCount \<noteq> i" using retry(2) "1.prems"(4) by auto
    with "1.prems"(1) have lt: "retryCount + 1 \<le> i" by simp
    have later: "\<forall>j. retryCount + 1 \<le> j \<and> j < i \<longrightarrow> isl (fst (operation j))"
      using "1.prems"(3) by simp
    from "1.IH" [OF retry(1) retry(2) [symmetric] refl _ lt "1.prems"(2) later "1.prems"(4)] retry(3)
    have "fst (withRetry_loop operation rnd opts (retryCount + 1) e) = Inr v
      \<and> invocations (snd (withRetry_loop operation rnd opts (retryCount + 1) e))
          = i - (retryCount + 1) + 1
      \<and> length (backoffs (snd (withRetry_loop operation rnd opts (retryCount + 1) e)))
          = i - (retryCount + 1)"
      by simp
    with retry(4) lt show ?thesis by simp
  qed
qed


section \<open>The loop of \<open>checkEligibilityWithRetry\<close>, case by case\<close>

lemma checkPawsEligibility_throws_Error:
  "fst (checkPawsEligibility pa po sd pk proxy cfg) = Inl e \<Longrightarrow> \<exists>msg. e = Error msg"
  by (auto simp: checkPawsEligibility_def createApiClient_def Let_def
      split: option.splits if_splits axios_result.splits prod.splits sum.splits)

lemma checkEligibilityWithRetry_loop_stop:
  "\<not> int retryCount \<le> retries opts \<Longrightarrow>
   checkEligibilityWithRetry_loop pa po rnd sd pk proxy cfg opts retryCount lastError
     = (Inl lastError, [])"
  by (subst checkEligibilityWithRetry_loop.simps) simp

lemma checkEligibilityWithRetry_loop_success:
  "int retryCount \<le> retries opts \<Longrightarrow>
   checkPawsEligibility pa (po retryCount) sd pk proxy cfg = (Inr v, ios) \<Longrightarrow>
   checkEligibilityWithRetry_loop pa po rnd sd pk proxy cfg opts retryCount lastError
     = (Inr v, Invoked # map Io ios)"
  by (subst checkEligibilityWithRetry_loop.simps) simp

lemma checkEligibilityWithRetry_loop_give_up:
  "int retryCount \<le> retries opts \<Longrightarrow>
   checkPawsEligibility pa (po retryCount) sd pk proxy cfg = (Inl (Error msg), ios) \<Longrightarrow>
   retries opts < int (retryCount + 1) \<Longrightarrow>
   \<exists>m. checkEligibilityWithRetry_loop pa po rnd sd pk proxy cfg opts retryCount lastError
     = (Inl (Error msg), Invoked # map Io ios @ [Io (Log LError m pk)])"
  by (subst checkEligibilityWithRetry_loop.simps) simp

lemma checkEligibilityWithRetry_loop_retry:
  "int retryCount \<le> retries opts \<Longrightarrow>
   checkPawsEligibility pa (po retryCount) sd pk proxy cfg = (Inl e, ios) \<Longrightarrow>
   \<not> retries opts < int (retryCount + 1) \<Longrightarrow>
   \<exists>m. checkEligibilityWithRetry_loop pa po rnd sd pk proxy cfg opts retryCount lastError =
     (fst (checkEligibilityWithRetry_loop pa po rnd sd pk proxy cfg opts (retryCount + 1) e),
      Invoked # map Io ios
        @ [Io (Log LWarn m pk), Backoff (backoffTime (rnd (retryCount + 1)) (retryCount + 1) opts)]
        @ snd (checkEligibilityWithRetry_loop pa po rnd sd pk proxy cfg opts
                 (retryCount + 1) e))"
  by (subst checkEligibilityWithRetry_loop.simps) (simp split: prod.splits)

lemma checkEligibilityWithRetry_loop_cases [case_names stop success give_up retry]:
  assumes "\<not> int retryCount \<le> retries opts \<Longrightarrow>
             checkEligibilityWithRetry_loop pa po rnd sd pk proxy cfg opts retryCount lastError
               = (Inl lastError, []) \<Longrightarrow> P"
    and "\<And>v ios. int retryCount \<le> retries opts \<Longrightarrow>
             checkPawsEligibility pa (po retryCount) sd pk proxy cfg = (Inr v, ios) \<Longrightarrow>
             checkEligibilityWithRetry_loop pa po rnd sd pk proxy cfg opts retryCount lastError
               = (Inr v, Invoked # map Io ios) \<Longrightarrow> P"
    and "\<And>msg ios m. int retryCount \<le> retries opts \<Longrightarrow>
             checkPawsEligibility pa (po retryCount) sd pk proxy cfg
               = (Inl (Error msg), ios) \<Longrightarrow>
             retries opts < int (retryCount + 1) \<Longrightarrow>
             checkEligibilityWithRetry_loop pa po rnd sd pk proxy cfg opts retryCount lastError
               = (Inl (Error msg), Invoked # map Io ios @ [Io (Log LError m pk)]) \<Longrightarrow> P"
    and "\<And>msg ios m. int retryCount \<le> retries opts \<Longrightarrow>
             checkPawsEligibility pa (po retryCount) sd pk proxy cfg
               = (Inl (Error msg), ios) \<Longrightarrow>
             \<not> retries opts < int (retryCount + 1) \<Longrightarrow>
             checkEligibilityWithRetry_loop pa po rnd sd pk proxy cfg opts retryCount lastError =
               (fst (checkEligibilityWithRetry_loop pa po rnd sd pk proxy cfg opts
                       (retryCount + 1) (Error msg)),
                Invoked # map Io ios
                  @ [Io (Log LWarn m pk), Backoff (backoffTime (rnd (retryCount + 1)) (retryCount + 1) opts)]
                  @ snd (checkEligibilityWithRetry_loop pa po rnd sd pk proxy cfg opts
                           (retryCount + 1) (Error msg))) \<Longrightarrow> P"
  shows P
proof (cases "int retryCount \<le> retries opts")
  case False
  show ?thesis
    by (rule assms(1) [OF False checkEligibilityWithRetry_loop_stop [OF False]])
next
  case True
  obtain res ios where op: "checkPawsEligibility pa (po retryCount) sd pk proxy cfg = (res, ios)"
    by (cases "checkPawsEligibility pa (po retryCount) sd pk proxy cfg")
  show ?thesis
  proof (cases res)
    case (Inr v)
    with op have op': "checkPawsEligibility pa (po retryCount) sd pk proxy cfg = (Inr v, ios)"
      by simp
    show ?thesis
      by (rule assms(2) [OF True op' checkEligibilityWithRetry_loop_success [where po = po and retryCount = retryCount, OF True op']])
  next
    case (Inl e)
    with op have "fst (checkPawsEligibility pa (po retryCount) sd pk proxy cfg) = Inl e"
      by simp
    then obtain msg where "e = Error msg"
      using checkPawsEligibility_throws_Error by blast
    with op Inl
    have op': "checkPawsEligibility pa (po retryCount) sd pk proxy cfg = (Inl (Error msg), ios)"
      by simp
    show ?thesis
    proof (cases "retries opts < int (retryCount + 1)")
      case lt: True
      from checkEligibilityWithRetry_loop_give_up [where po = po and retryCount = retryCount and rnd = rnd and lastError = lastError, OF True op' lt]
      obtain m where
        "checkEligibilityWithRetry_loop pa po rnd sd pk proxy cfg opts retryCount lastError
           = (Inl (Error msg), Invoked # map Io ios @ [Io (Log LError m pk)])" ..
      then show ?thesis
        by (rule assms(3) [OF True op' lt])
    next
      case False
      from checkEligibilityWithRetry_loop_retry [where po = po and retryCount = retryCount and rnd = rnd and lastError = lastError, OF True op' False]
      obtain m where
        "checkEligibilityWithRetry_loop pa po rnd sd pk proxy cfg opts retryCount lastError =
               (fst (checkEligibilityWithRetry_loop pa po rnd sd pk proxy cfg opts
                       (retryCount + 1) (Error msg)),
                Invoked # map Io ios
                  @ [Io (Log LWarn m pk), Backoff (backoffTime (rnd (retryCount + 1)) (retryCount + 1) opts)]
                  @ snd (checkEligibilityWithRetry_loop pa po rnd sd pk proxy cfg opts
                           (retryCount + 1) (Error msg)))" ..
      then show ?thesis
        by (rule assms(4) [OF True op' False])
    qed
  qed
qed


lemma checkEligibilityWithRetry_loop_invocations_le:
  "invocations (snd (checkEligibilityWithRetry_loop pa po rnd sd pk proxy cfg opts retryCount lastError))
     \<le> nat (retries opts + 1 - int retryCount)"
proof (induction pa po rnd sd pk proxy cfg opts retryCount lastError
    rule: checkEligibilityWithRetry_loop.induct)
  case (1 pa po rnd sd pk proxy cfg opts retryCount lastError)
  show ?case
  proof (cases pa po rnd sd pk proxy cfg opts retryCount lastError
      rule: checkEligibilityWithRetry_loop_cases)
    case stop
    then show ?thesis by simp
  next
    case (success v ios)
    then show ?thesis by simp
  next
    case (give_up msg ios m)
    then show ?thesis by simp
  next
    case (retry msg ios m)
    from "1.IH" [OF retry(1) retry(2) [symmetric] refl] retry(3)
    have "invocations (snd (checkEligibilityWithRetry_loop pa po rnd sd pk proxy cfg opts
             (retryCount + 1) (Error msg)))
            \<le> nat (retries opts + 1 - int (retryCount + 1))" by simp
    moreover from retry(4)
    have "invocations (snd (checkEligibilityWithRetry_loop pa po rnd sd pk proxy cfg opts
             retryCount lastError))
          = Suc (invocations (snd (checkEligibilityWithRetry_loop pa po rnd sd pk proxy cfg opts
             (retryCount + 1) (Error msg))))"
      by simp
    ultimately show ?thesis using retry(3) by linarith
  qed
qed

lemma checkEligibilityWithRetry_loop_backoffs_le:
  "b \<in> set (backoffs (snd (checkEligibilityWithRetry_loop pa po rnd sd pk proxy cfg opts
                              retryCount lastError)))
     \<Longrightarrow> b \<le> maxTimeout opts"
proof (induction pa po rnd sd pk proxy cfg opts retryCount lastError
    rule: checkEligibilityWithRetry_loop.induct)
  case (1 pa po rnd sd pk proxy cfg opts retryCount lastError)
  show ?case
  proof (cases pa po rnd sd pk proxy cfg opts retryCount lastError
      rule: checkEligibilityWithRetry_loop_cases)
    case stop
    with "1.prems" show ?thesis by simp
  next
    case (success v ios)
    with "1.prems" show ?thesis by simp
  next
    case (give_up msg ios m)
    with "1.prems" show ?thesis by simp
  next
    case (retry msg ios m)
    from "1.prems" retry(4)
    have "b = backoffTime (rnd (retryCount + 1)) (retryCount + 1) opts
          \<or> b \<in> set (backoffs (snd (checkEligibilityWithRetry_loop pa po rnd sd pk proxy cfg opts
                                        (retryCount + 1) (Error msg))))"
      by simp
    then show ?thesis
    proof
      assume "b = backoffTime (rnd (retryCount + 1)) (retryCount + 1) opts"
      then show ?thesis by (simp add: backoffTime_le)
    next
      assume "b \<in> set (backoffs (snd (checkEligibilityWithRetry_loop pa po rnd sd pk proxy cfg opts
                                        (retryCount + 1) (Error msg))))"
      with "1.IH" [OF retry(1) retry(2) [symmetric] refl] retry(3) show ?thesis by simp
    qed
  qed
qed

lemma checkEligibilityWithRetry_loop_first_success:
  "retryCount \<le> i \<Longrightarrow> int i \<le> retries opts \<Longrightarrow>
   (\<forall>j. retryCount \<le> j \<and> j < i \<longrightarrow> isl (fst (checkPawsEligibility pa (po j) sd pk proxy cfg))) \<Longrightarrow>
   fst (checkPawsEligibility pa (po i) sd pk proxy cfg) = Inr v \<Longrightarrow>
   fst (checkEligibilityWithRetry_loop pa po rnd sd pk proxy cfg opts retryCount lastError) = Inr v
   \<and> invocations (snd (checkEligibilityWithRetry_loop pa po rnd sd pk proxy cfg opts
                          retryCount lastError)) = i - retryCount + 1
   \<and> length (backoffs (snd (checkEligibilityWithRetry_loop pa po rnd sd pk proxy cfg opts
                               retryCount lastError))) = i - retryCount"
proof (induction pa po rnd sd pk proxy cfg opts retryCount lastError
    rule: checkEligibilityWithRetry_loop.induct)
  case (1 pa po rnd sd pk proxy cfg opts retryCount lastError)
  show ?case
  proof (cases pa po rnd sd pk proxy cfg opts retryCount lastError
      rule: checkEligibilityWithRetry_loop_cases)
    case stop
    with "1.prems" show ?thesis by simp
  next
    case (success v' ios)
    have "retryCount = i"
    proof (rule ccontr)
      assume "retryCount \<noteq> i"
      with "1.prems"(1,3)
      have "isl (fst (checkPawsEligibility pa (po retryCount) sd pk proxy cfg))" by simp
      with success(2) show False by simp
    qed
    with success "1.prems"(4) show ?thesis by simp
  next
    case (give_up msg ios m)
    with "1.prems"(1,2) have "retryCount = i" by simp
    with give_up(2) "1.prems"(4) show ?thesis by simp
  next
    case (retry msg ios m)
    have "retryCount \<noteq> i" using retry(2) "1.prems"(4) by auto
    with "1.prems"(1) have lt: "retryCount + 1 \<le> i" by simp
    have later: "\<forall>j. retryCount + 1 \<le> j \<and> j < i
                   \<longrightarrow> isl (fst (checkPawsEligibility pa (po j) sd pk proxy cfg))"
      using "1.prems"(3) by simp
    from "1.IH" [OF retry(1) retry(2) [symmetric] refl _ lt "1.prems"(2) later "1.prems"(4)] retry(3)
    have "fst (checkEligibilityWithRetry_loop pa po rnd sd pk proxy cfg opts
                 (retryCount + 1) (Error msg)) = Inr v
      \<and> invocations (snd (checkEligibilityWithRetry_loop pa po rnd sd pk proxy cfg opts
                 (retryCount + 1) (Error msg))) = i - (retryCount + 1) + 1
      \<and> length (backoffs (snd (checkEligibilityWithRetry_loop pa po rnd sd pk proxy cfg opts
                 (retryCount + 1) (Error msg)))) = i - (retryCount + 1)"
      by simp
    with retry(4) lt show ?thesis by simp
  qed
qed

text \<open>When every attempt throws, the last error comes out after \<open>retries + 1\<close> calls.\<close>

lemma checkEligibilityWithRetry_loop_all_fail:
  "int retryCount \<le> retries opts \<Longrightarrow>
   (\<forall>j. retryCount \<le> j \<and> int j \<le> retries opts
        \<longrightarrow> fst (checkPawsEligibility pa (po j) sd pk proxy cfg) = Inl (Error (errs j))) \<Longrightarrow>
   fst (checkEligibilityWithRetry_loop pa po rnd sd pk proxy cfg opts retryCount lastError)
     = Inl (Error (errs (nat (retries opts))))
   \<and> invocations (snd (checkEligibilityWithRetry_loop pa po rnd sd pk proxy cfg opts
                          retryCount lastError)) = nat (retries opts) + 1 - retryCount"
proof (induction pa po rnd sd pk proxy cfg opts retryCount lastError
    rule: checkEligibilityWithRetry_loop.induct)
  case (1 pa po rnd sd pk proxy cfg opts retryCount lastError)
  from "1.prems"
  have here: "fst (checkPawsEligibility pa (po retryCount) sd pk proxy cfg) = Inl (Error (errs retryCount))"
    by simp
  show ?case
  proof (cases pa po rnd sd pk proxy cfg opts retryCount lastError
      rule: checkEligibilityWithRetry_loop_cases)
    case stop
    with "1.prems" show ?thesis by simp
  next
    case (success v ios)
    with here show ?thesis by simp
  next
    case (give_up msg ios m)
    from give_up(1,3) have "nat (retries opts) = retryCount" by linarith
    with give_up here show ?thesis by simp
  next
    case (retry msg ios m)
    from retry(3) have le: "int (retryCount + 1) \<le> retries opts" by simp
    have later: "\<forall>j. retryCount + 1 \<le> j \<and> int j \<le> retries opts
        \<longrightarrow> fst (checkPawsEligibility pa (po j) sd pk proxy cfg) = Inl (Error (errs j))"
      using "1.prems"(2) by simp
    from "1.IH" [OF retry(1) retry(2) [symmetric] refl _ le later] retry(3)
    have "fst (checkEligibilityWithRetry_loop pa po rnd sd pk proxy cfg opts
                 (retryCount + 1) (Error msg)) = Inl (Error (errs (nat (retries opts))))
      \<and> invocations (snd (checkEligibilityWithRetry_loop pa po rnd sd pk proxy cfg opts
                 (retryCount + 1) (Error msg))) = nat (retries opts) + 1 - (retryCount + 1)"
      by simp
    with retry(4) le show ?thesis by (simp; linarith)
  qed
qed

text \<open>Once the loop is entered, what it throws is an \<open>Error\<close>.\<close>

lemma checkEligibilityWithRetry_loop_throws_Error:
  "int retryCount \<le> retries opts \<Longrightarrow>
   fst (checkEligibilityWithRetry_loop pa po rnd sd pk proxy cfg opts retryCount lastError) = Inl e \<Longrightarrow>
   \<exists>msg. e = Error msg"
proof (induction pa po rnd sd pk proxy cfg opts retryCount lastError
    rule: checkEligibilityWithRetry_loop.induct)
  case (1 pa po rnd sd pk proxy cfg opts retryCount lastError)
  show ?case
  proof (cases pa po rnd sd pk proxy cfg opts retryCount lastError
      rule: checkEligibilityWithRetry_loop_cases)
    case stop
    with "1.prems" show ?thesis by simp
  next
    case (success v ios)
    with "1.prems" show ?thesis by simp
  next
    case (give_up msg ios m)
    with "1.prems" show ?thesis by auto
  next
    case (retry msg ios m)
    from retry(3) have le: "int (retryCount + 1) \<le> retries opts" by simp
    from "1.prems"(2) retry(4)
    have "fst (checkEligibilityWithRetry_loop pa po rnd sd pk proxy cfg opts
                 (retryCount + 1) (Error msg)) = Inl e" by simp
    with "1.IH" [OF retry(1) retry(2) [symmetric] refl _ le] retry(3) show ?thesis by simp
  qed
qed

section \<open>No task writes a file\<close>

lemma writes_map_Log [simp]: "writes (map (\<lambda>m. Io (Log lv m w)) ms) = []"
  by (induction ms) simp_all

lemma writes_createApiClient: "writes (map Io (snd (createApiClient pa proxy cfg))) = []"
  by (simp add: createApiClient_def split: option.splits)

lemma writes_checkPawsEligibility:
  "writes (map Io (snd (checkPawsEligibility pa po sd pk proxy cfg))) = []"
proof -
  obtain c ios where c: "createApiClient pa proxy cfg = (c, ios)"
    by (cases "createApiClient pa proxy cfg")
  with writes_createApiClient [of pa proxy cfg] have "writes (map Io ios) = []" by simp
  with c show ?thesis
    by (simp add: checkPawsEligibility_def Let_def
        split: sum.splits prod.splits axios_result.splits option.splits)
qed

lemma writes_createKeypairFromPrivateKey:
  "writes (map Io (snd (createKeypairFromPrivateKey l privateKey))) = []"
  by (simp add: createKeypairFromPrivateKey_def split: sum.splits)

lemma writes_signMessage: "writes (map Io (snd (signMessage l kp message))) = []"
  by (simp add: signMessage_def split: sum.splits)

lemma writes_withRetry_loop:
  "(\<And>i. writes (map Io (snd (operation i))) = []) \<Longrightarrow>
   writes (snd (withRetry_loop operation rnd opts retryCount lastError)) = []"
proof (induction operation rnd opts retryCount lastError rule: withRetry_loop.induct)
  case (1 operation rnd opts retryCount lastError)
  have here: "writes (map Io (snd (operation retryCount))) = []" by (rule "1.prems")
  show ?case
  proof (cases operation rnd opts retryCount lastError rule: withRetry_loop_cases)
    case stop
    then show ?thesis by simp
  next
    case (success v ios)
    with here show ?thesis by simp
  next
    case (give_up e ios)
    with here show ?thesis by simp
  next
    case (retry e ios m)
    from "1.IH" [OF retry(1) retry(2) [symmetric] refl] retry(3) "1.prems"
    have "writes (snd (withRetry_loop operation rnd opts (retryCount + 1) e)) = []" by simp
    with retry(2,4) here show ?thesis by simp
  qed
qed

lemma writes_checkEligibilityWithRetry_loop:
  "writes (snd (checkEligibilityWithRetry_loop pa po rnd sd pk proxy cfg opts retryCount lastError)) = []"
proof (induction pa po rnd sd pk proxy cfg opts retryCount lastError
    rule: checkEligibilityWithRetry_loop.induct)
  case (1 pa po rnd sd pk proxy cfg opts retryCount lastError)
  have here: "writes (map Io (snd (checkPawsEligibility pa (po retryCount) sd pk proxy cfg))) = []"
    by (rule writes_checkPawsEligibility)
  show ?case
  proof (cases pa po rnd sd pk proxy cfg opts retryCount lastError
      rule: checkEligibilityWithRetry_loop_cases)
    case stop
    then show ?thesis by simp
  next
    case (success v ios)
    with here show ?thesis by simp
  next
    case (give_up msg ios m)
    with here show ?thesis by simp
  next
    case (retry msg ios m)
    from "1.IH" [OF retry(1) retry(2) [symmetric] refl] retry(3)
    have "writes (snd (checkEligibilityWithRetry_loop pa po rnd sd pk proxy cfg opts
             (retryCount + 1) (Error msg))) = []" by simp
    with retry(2,4) here show ?thesis by simp
  qed
qed

lemma writes_catchWallet:
  "writes evs = [] \<Longrightarrow> writes (snd (catchWallet privateKey e evs)) = []"
  by (simp add: catchWallet_def split: thrown.splits)


section \<open>\<open>checkWalletEligibility\<close>, case by case\<close>

lemma withRetry_negative:
  "retries opts < 0 \<Longrightarrow> withRetry operation rnd opts = (Inl Undefined, [])"
  by (simp add: withRetry_def withRetry_loop_stop)

lemma withRetry_keypairOperation:
  "0 \<le> retries opts \<Longrightarrow> createKeypairFromPrivateKey l privateKey = (kp, ios) \<Longrightarrow>
   withRetry (keypairOperation l privateKey) rnd opts = (Inr kp, Invoked # map Io ios)"
  unfolding withRetry_def
  by (rule withRetry_loop_success) (simp_all add: keypairOperation_def)

lemma withRetry_signOperation:
  "0 \<le> retries opts \<Longrightarrow> signMessage l kp message = (sd, ios) \<Longrightarrow>
   withRetry (signOperation l kp message) rnd opts = (Inr sd, Invoked # map Io ios)"
  unfolding withRetry_def
  by (rule withRetry_loop_success) (simp_all add: signOperation_def)

lemma checkWalletEligibility_negative:
  "retries (retryOptions cfg) < 0 \<Longrightarrow>
   checkWalletEligibility l t privateKey proxy cfg = (Inl undefined_message, [])"
  by (simp add: checkWalletEligibility_def withRetry_negative catchWallet_def)

lemma checkWalletEligibility_no_keypair:
  "0 \<le> retries (retryOptions cfg) \<Longrightarrow> createKeypairFromPrivateKey l privateKey = (None, ios) \<Longrightarrow>
   checkWalletEligibility l t privateKey proxy cfg =
     (Inr \<lparr>res_publicKey = ''unknown'', res_eligible = False, res_amount = None,
           res_error = Some ''Failed to create keypair''\<rparr>, Invoked # map Io ios)"
  by (simp add: checkWalletEligibility_def withRetry_keypairOperation)

lemma checkWalletEligibility_no_signature:
  "0 \<le> retries (retryOptions cfg) \<Longrightarrow> createKeypairFromPrivateKey l privateKey = (Some kp, ios1) \<Longrightarrow>
   signMessage l kp (signatureMessage cfg) = (None, ios2) \<Longrightarrow>
   checkWalletEligibility l t privateKey proxy cfg =
     (Inr \<lparr>res_publicKey = publicKeyBase58 kp, res_eligible = False, res_amount = None,
           res_error = Some ''Failed to sign message''\<rparr>,
      (Invoked # map Io ios1) @ (Invoked # map Io ios2))"
  by (simp add: checkWalletEligibility_def withRetry_keypairOperation withRetry_signOperation)

lemma checkWalletEligibility_api_throws:
  "0 \<le> retries (retryOptions cfg) \<Longrightarrow> createKeypairFromPrivateKey l privateKey = (Some kp, ios1) \<Longrightarrow>
   signMessage l kp (signatureMessage cfg) = (Some sd, ios2) \<Longrightarrow>
   checkEligibilityWithRetry (proxyAgent l) (post t) (rndApi t) sd (publicKeyBase58 kp) proxy cfg
     (retryOptions cfg) = (Inl (Error msg), evs3) \<Longrightarrow>
   checkWalletEligibility l t privateKey proxy cfg =
     (Inr \<lparr>res_publicKey = (if privateKey \<noteq> [] then take 4 privateKey @ ''...'' else ''unknown''),
           res_eligible = False, res_amount = None, res_error = Some msg\<rparr>,
      (Invoked # map Io ios1) @ (Invoked # map Io ios2) @ evs3
        @ [Io (Log LError (''Failed to check eligibility: '' @ msg) [])])"
  by (simp add: checkWalletEligibility_def withRetry_keypairOperation withRetry_signOperation
      catchWallet_def)

lemma checkWalletEligibility_api_returns:
  "0 \<le> retries (retryOptions cfg) \<Longrightarrow> createKeypairFromPrivateKey l privateKey = (Some kp, ios1) \<Longrightarrow>
   signMessage l kp (signatureMessage cfg) = (Some sd, ios2) \<Longrightarrow>
   checkEligibilityWithRetry (proxyAgent l) (post t) (rndApi t) sd (publicKeyBase58 kp) proxy cfg
     (retryOptions cfg) = (Inr r, evs3) \<Longrightarrow>
   \<exists>lv m. checkWalletEligibility l t privateKey proxy cfg =
     (Inr \<lparr>res_publicKey = publicKeyBase58 kp, res_eligible = eligible r,
           res_amount = amount r, res_error = err r\<rparr>,
      (Invoked # map Io ios1) @ (Invoked # map Io ios2) @ evs3
        @ [Io (Log lv m (publicKeyBase58 kp))])"
  by (simp add: checkWalletEligibility_def withRetry_keypairOperation withRetry_signOperation)

text \<open>With \<open>retries\<close> at least 0, every wallet ends in one of four ways.\<close>

lemma checkWalletEligibility_cases [consumes 1, case_names no_keypair no_signature api_throws api_returns]:
  assumes "0 \<le> retries (retryOptions cfg)"
  obtains
    (no_keypair) ios where "createKeypairFromPrivateKey l privateKey = (None, ios)"
      "checkWalletEligibility l t privateKey proxy cfg =
         (Inr \<lparr>res_publicKey = ''unknown'', res_eligible = False, res_amount = None,
               res_error = Some ''Failed to create keypair''\<rparr>, Invoked # map Io ios)"
  | (no_signature) kp ios1 ios2 where "createKeypairFromPrivateKey l privateKey = (Some kp, ios1)"
      "signMessage l kp (signatureMessage cfg) = (None, ios2)"
      "checkWalletEligibility l t privateKey proxy cfg =
         (Inr \<lparr>res_publicKey = publicKeyBase58 kp, res_eligible = False, res_amount = None,
               res_error = Some ''Failed to sign message''\<rparr>,
          (Invoked # map Io ios1) @ (Invoked # map Io ios2))"
  | (api_throws) kp ios1 sd ios2 msg evs3 where
      "createKeypairFromPrivateKey l privateKey = (Some kp, ios1)"
      "signMessage l kp (signatureMessage cfg) = (Some sd, ios2)"
      "checkEligibilityWithRetry (proxyAgent l) (post t) (rndApi t) sd (publicKeyBase58 kp) proxy cfg
         (retryOptions cfg) = (Inl (Error msg), evs3)"
      "checkWalletEligibility l t privateKey proxy cfg =
         (Inr \<lparr>res_publicKey = (if privateKey \<noteq> [] then take 4 privateKey @ ''...'' else ''unknown''),
               res_eligible = False, res_amount = None, res_error = Some msg\<rparr>,
          (Invoked # map Io ios1) @ (Invoked # map Io ios2) @ evs3
            @ [Io (Log LError (''Failed to check eligibility: '' @ msg) [])])"
  | (api_returns) kp ios1 sd ios2 r evs3 lv m where
      "createKeypairFromPrivateKey l privateKey = (Some kp, ios1)"
      "signMessage l kp (signatureMessage cfg) = (Some sd, ios2)"
      "checkEligibilityWithRetry (proxyAgent l) (post t) (rndApi t) sd (publicKeyBase58 kp) proxy cfg
         (retryOptions cfg) = (Inr r, evs3)"
      "checkWalletEligibility l t privateKey proxy cfg =
         (Inr \<lparr>res_publicKey = publicKeyBase58 kp, res_eligible = eligible r,
               res_amount = amount r, res_error = err r\<rparr>,
          (Invoked # map Io ios1) @ (Invoked # map Io ios2) @ evs3
            @ [Io (Log lv m (publicKeyBase58 kp))])"
proof -
  obtain okp ios1 where k: "createKeypairFromPrivateKey l privateKey = (okp, ios1)"
    by (cases "createKeypairFromPrivateKey l privateKey")
  show thesis
  proof (cases okp)
    case None
    with k have k': "createKeypairFromPrivateKey l privateKey = (None, ios1)" by simp
    show thesis
      by (rule no_keypair [OF k' checkWalletEligibility_no_keypair [OF assms k']])
  next
    case (Some kp)
    with k have k': "createKeypairFromPrivateKey l privateKey = (Some kp, ios1)" by simp
    obtain osd ios2 where s: "signMessage l kp (signatureMessage cfg) = (osd, ios2)"
      by (cases "signMessage l kp (signatureMessage cfg)")
    show thesis
    proof (cases osd)
      case None
      with s have s': "signMessage l kp (signatureMessage cfg) = (None, ios2)" by simp
      show thesis
        by (rule no_signature [OF k' s' checkWalletEligibility_no_signature [OF assms k' s']])
    next
      case (Some sd)
      with s have s': "signMessage l kp (signatureMessage cfg) = (Some sd, ios2)" by simp
      obtain res evs3 where a: "checkEligibilityWithRetry (proxyAgent l) (post t) (rndApi t) sd
          (publicKeyBase58 kp) proxy cfg (retryOptions cfg) = (res, evs3)"
        by (cases "checkEligibilityWithRetry (proxyAgent l) (post t) (rndApi t) sd
          (publicKeyBase58 kp) proxy cfg (retryOptions cfg)")
      show thesis
      proof (cases res)
        case (Inr r)
        with a have a': "checkEligibilityWithRetry (proxyAgent l) (post t) (rndApi t) sd
          (publicKeyBase58 kp) proxy cfg (retryOptions cfg) = (Inr r, evs3)" by simp
        from checkWalletEligibility_api_returns [OF assms k' s' a']
        obtain lv m where "checkWalletEligibility l t privateKey proxy cfg =
         (Inr \<lparr>res_publicKey = publicKeyBase58 kp, res_eligible = eligible r,
               res_amount = amount r, res_error = err r\<rparr>,
          (Invoked # map Io ios1) @ (Invoked # map Io ios2) @ evs3
            @ [Io (Log lv m (publicKeyBase58 kp))])" by blast
        then show thesis by (rule api_returns [OF k' s' a'])
      next
        case (Inl e)
        with a have "fst (checkEligibilityWithRetry_loop (proxyAgent l) (post t) (rndApi t) sd
          (publicKeyBase58 kp) proxy cfg (retryOptions cfg) 0 Undefined) = Inl e"
          by (simp add: checkEligibilityWithRetry_def)
        with assms obtain msg where "e = Error msg"
          using checkEligibilityWithRetry_loop_throws_Error
            [of 0 "retryOptions cfg" "proxyAgent l" "post t" "rndApi t" sd "publicKeyBase58 kp"
              proxy cfg Undefined e]
          by auto
        with a Inl have a': "checkEligibilityWithRetry (proxyAgent l) (post t) (rndApi t) sd
          (publicKeyBase58 kp) proxy cfg (retryOptions cfg) = (Inl (Error msg), evs3)" by simp
        show thesis
          by (rule api_throws [OF k' s' a' checkWalletEligibility_api_throws [OF assms k' s' a']])
      qed
    qed
  qed
qed

lemma writes_checkEligibilityWithRetry:
  "checkEligibilityWithRetry pa po rnd sd pk proxy cfg opts = (res, evs) \<Longrightarrow> writes evs = []"
  using writes_checkEligibilityWithRetry_loop [of pa po rnd sd pk proxy cfg opts 0 Undefined]
  by (simp add: checkEligibilityWithRetry_def)

lemma writes_checkWalletEligibility:
  "writes (snd (checkWalletEligibility l t privateKey proxy cfg)) = []"
proof (cases "0 \<le> retries (retryOptions cfg)")
  case False
  then show ?thesis by (simp add: checkWalletEligibility_negative)
next
  case True
  then show ?thesis
  proof (cases rule: checkWalletEligibility_cases
      [where l = l and privateKey = privateKey and t = t and proxy = "proxy"])
    case (no_keypair ios)
    with writes_createKeypairFromPrivateKey [of l privateKey] show ?thesis by simp
  next
    case (no_signature kp ios1 ios2)
    with writes_createKeypairFromPrivateKey [of l privateKey]
      writes_signMessage [of l kp "signatureMessage cfg"] show ?thesis by simp
  next
    case (api_throws kp ios1 sd ios2 msg evs3)
    with writes_createKeypairFromPrivateKey [of l privateKey]
      writes_signMessage [of l kp "signatureMessage cfg"]
      writes_checkEligibilityWithRetry [OF api_throws(3)] show ?thesis by simp
  next
    case (api_returns kp ios1 sd ios2 r evs3 lv m)
    with writes_createKeypairFromPrivateKey [of l privateKey]
      writes_signMessage [of l kp "signatureMessage cfg"]
      writes_checkEligibilityWithRetry [OF api_returns(3)] show ?thesis by simp
  qed
qed


lemma checkWalletEligibility_returns:
  assumes "0 \<le> retries (retryOptions cfg)"
  shows "\<exists>r. fst (checkWalletEligibility l t privateKey proxy cfg) = Inr r"
  using assms
  by (cases rule: checkWalletEligibility_cases
      [where l = l and privateKey = privateKey and t = t and proxy = "proxy"]) simp_all

section \<open>The tasks of \<open>main\<close>\<close>

lemma writes_randomSleep [simp]: "writes (randomSleep mn mx r) = []"
  by (simp add: randomSleep_def Let_def)

lemma walletTask_returns:
  assumes "fst (checkWalletEligibility l t privateKey (assignProxy cfg proxies index) cfg) = Inr r"
  shows "fst (walletTask l t cfg proxies privateKeys privateKey index) =
           Inr \<lparr>res_publicKey = res_publicKey r, res_eligible = res_eligible r,
                 res_amount = res_amount r, res_error = res_error r,
                 res_privateKey = privateKey\<rparr>"
proof -
  obtain evs where "checkWalletEligibility l t privateKey (assignProxy cfg proxies index) cfg = (Inr r, evs)"
    using assms by (cases "checkWalletEligibility l t privateKey (assignProxy cfg proxies index) cfg") simp
  then show ?thesis by (simp add: walletTask_def)
qed

lemma writes_walletTask:
  "writes (snd (walletTask l t cfg proxies privateKeys privateKey index)) = []"
proof -
  obtain res evs where c:
    "checkWalletEligibility l t privateKey (assignProxy cfg proxies index) cfg = (res, evs)"
    by (cases "checkWalletEligibility l t privateKey (assignProxy cfg proxies index) cfg")
  with writes_checkWalletEligibility [of l t privateKey "assignProxy cfg proxies index" cfg]
  have "writes evs = []" by simp
  with c show ?thesis by (cases res) (simp_all add: walletTask_def)
qed

lemma length_tasks [simp]: "length (tasks l world cfg proxies privateKeys) = length privateKeys"
  by (simp add: tasks_def)

lemma nth_tasks:
  "i < length privateKeys \<Longrightarrow>
   tasks l world cfg proxies privateKeys ! i
     = walletTask l (world i) cfg proxies privateKeys (privateKeys ! i) i"
  by (simp add: tasks_def)

lemma completion_order_length: "completion_order n order \<Longrightarrow> length order = n"
proof -
  assume "completion_order n order"
  then have d: "distinct order" and s: "set order = {0..<n}"
    by (simp_all add: completion_order_def)
  from d have "length order = card (set order)" by (simp add: distinct_card)
  with s show ?thesis by simp
qed

lemma completion_order_less: "completion_order n order \<Longrightarrow> i \<in> set order \<Longrightarrow> i < n"
  by (simp add: completion_order_def)

lemma completion_order_mem: "completion_order n order \<Longrightarrow> i < n \<Longrightarrow> i \<in> set order"
  by (simp add: completion_order_def)

lemma pushed_all_returned:
  "(\<And>c. c \<in> set cs \<Longrightarrow> \<exists>r. fst c = Inr r) \<Longrightarrow>
   first_rejection cs = None \<and> pushed cs = map (\<lambda>c. projr (fst c)) cs"
proof (induction cs rule: pushed.induct)
  case 1
  then show ?case by simp
next
  case (2 msg evs ts)
  from "2.prems" [of "(Inl msg, evs)"] show ?case by simp
next
  case (3 r evs ts)
  then show ?case by simp
qed

lemma writes_concat: "(\<And>x. x \<in> set xs \<Longrightarrow> writes x = []) \<Longrightarrow> writes (concat xs) = []"
  by (induction xs) simp_all

lemma writes_summary [simp]: "writes (summary results) = []"
  by (simp add: summary_def Let_def)

lemma posts_summary [simp]: "posts (summary results) = []"
  by (simp add: summary_def Let_def)

section \<open>\<open>saveResults\<close>\<close>

lemma join_Nil_if [simp]: "(if 0 < length xs then join sep xs else []) = join sep xs"
  by (cases xs) simp_all

lemma writes_saveResults:
  assumes "ensureDir f ''result'' = None"
    and "\<And>content. writeFile f ''result/eligible.txt'' content = None"
    and "\<And>content. writeFile f ''result/noteligible.txt'' content = None"
  shows "writes (map Io (saveResults f results)) =
           [(''result/eligible.txt'', join newline (eligibleWallets results)),
            (''result/noteligible.txt'', join newline (notEligibleWallets results))]"
  using assms by (simp add: saveResults_def Let_def)

section \<open>A run that passes the setup completes\<close>

lemma main_completes:
  fixes cfg :: config and readProxies privateKeys :: "string list" and l :: libs
    and world :: "nat \<Rightarrow> task" and order :: "nat list"
  assumes r: "0 \<le> retries (retryOptions cfg)"
    and c: "1 \<le> concurrency cfg"
    and k: "privateKeys \<noteq> []"
    and o: "completion_order (length privateKeys) order"
  defines "proxies \<equiv> (if enableProxy cfg then readProxies else [])"
  defines "results \<equiv> map (\<lambda>i. projr (fst (walletTask l (world i) cfg proxies privateKeys
                                                (privateKeys ! i) i))) order"
  shows "fst (main l world f (Inr cfg) (Inr privateKeys) readProxies order) = Completed results"
    and "writes (snd (main l world f (Inr cfg) (Inr privateKeys) readProxies order))
           = writes (map Io (saveResults f results))"
    and "length results = length privateKeys"
    and "map res_privateKey results = map (\<lambda>i. privateKeys ! i) order"
    and "\<And>x. x \<in> set results \<Longrightarrow>
           \<exists>i w. i < length privateKeys
             \<and> fst (checkWalletEligibility l (world i) (privateKeys ! i)
                      (assignProxy cfg proxies i) cfg) = Inr w
             \<and> x = \<lparr>res_publicKey = res_publicKey w, res_eligible = res_eligible w,
                      res_amount = res_amount w, res_error = res_error w,
                      res_privateKey = privateKeys ! i\<rparr>"
    and "\<And>i w. i < length privateKeys \<Longrightarrow>
           fst (checkWalletEligibility l (world i) (privateKeys ! i)
                  (assignProxy cfg proxies i) cfg) = Inr w \<Longrightarrow>
           \<lparr>res_publicKey = res_publicKey w, res_eligible = res_eligible w,
            res_amount = res_amount w, res_error = res_error w,
            res_privateKey = privateKeys ! i\<rparr> \<in> set results"
proof -
  let ?completed = "map (\<lambda>i. tasks l world cfg proxies privateKeys ! i) order"
  have task: "tasks l world cfg proxies privateKeys ! i
                = walletTask l (world i) cfg proxies privateKeys (privateKeys ! i) i"
    if "i \<in> set order" for i
    using that o by (simp add: nth_tasks completion_order_less)
  have ret: "\<exists>x. fst (walletTask l (world i) cfg proxies privateKeys (privateKeys ! i) i) = Inr x
               \<and> res_privateKey x = privateKeys ! i" for i
  proof -
    from checkWalletEligibility_returns [OF r]
    obtain x where "fst (checkWalletEligibility l (world i) (privateKeys ! i)
                      (assignProxy cfg proxies i) cfg) = Inr x" by blast
    from walletTask_returns [OF this] show ?thesis by simp
  qed
  have all: "\<exists>x. fst c = Inr x" if "c \<in> set ?completed" for c
    using that task ret by auto
  from pushed_all_returned [of ?completed, OF all]
  have fr: "first_rejection ?completed = None"
    and pu: "pushed ?completed = map (\<lambda>c. projr (fst c)) ?completed" by simp_all
  have res: "pushed ?completed = results"
    unfolding pu results_def using task by (simp add: comp_def)
  have wr: "writes (concat (map snd ?completed)) = []"
  proof (rule writes_concat)
    fix x assume "x \<in> set (map snd ?completed)"
    then obtain i where "i \<in> set order" "x = snd (tasks l world cfg proxies privateKeys ! i)"
      by auto
    with task show "writes x = []" by (simp add: writes_walletTask)
  qed
  from k c fr res
  show "fst (main l world f (Inr cfg) (Inr privateKeys) readProxies order) = Completed results"
    by (simp add: main_def Let_def proxies_def [symmetric])
  from k c fr res wr
  show "writes (snd (main l world f (Inr cfg) (Inr privateKeys) readProxies order))
           = writes (map Io (saveResults f results))"
    by (simp add: main_def Let_def proxies_def [symmetric])
  show "length results = length privateKeys"
    using o by (simp add: results_def completion_order_length)
  show "map res_privateKey results = map (\<lambda>i. privateKeys ! i) order"
    unfolding results_def map_map comp_def
  proof (rule map_cong [OF refl])
    fix i
    from ret [of i] obtain x where
      "fst (walletTask l (world i) cfg proxies privateKeys (privateKeys ! i) i) = Inr x"
      "res_privateKey x = privateKeys ! i" by blast
    then show "res_privateKey (projr (fst (walletTask l (world i) cfg proxies privateKeys
                  (privateKeys ! i) i))) = privateKeys ! i" by simp
  qed
  show "\<exists>i w. i < length privateKeys
             \<and> fst (checkWalletEligibility l (world i) (privateKeys ! i)
                      (assignProxy cfg proxies i) cfg) = Inr w
             \<and> x = \<lparr>res_publicKey = res_publicKey w, res_eligible = res_eligible w,
                      res_amount = res_amount w, res_error = res_error w,
                      res_privateKey = privateKeys ! i\<rparr>"
    if "x \<in> set results" for x
  proof -
    from that obtain i where i: "i \<in> set order"
      and x: "x = projr (fst (walletTask l (world i) cfg proxies privateKeys (privateKeys ! i) i))"
      by (auto simp: results_def)
    from checkWalletEligibility_returns [OF r]
    obtain w where w: "fst (checkWalletEligibility l (world i) (privateKeys ! i)
                      (assignProxy cfg proxies i) cfg) = Inr w" by blast
    from walletTask_returns [OF w, of privateKeys] x
    have "x = \<lparr>res_publicKey = res_publicKey w, res_eligible = res_eligible w,
                      res_amount = res_amount w, res_error = res_error w,
                      res_privateKey = privateKeys ! i\<rparr>" by simp
    with w i o show ?thesis using completion_order_less by blast
  qed
  show "\<lparr>res_publicKey = res_publicKey w, res_eligible = res_eligible w,
            res_amount = res_amount w, res_error = res_error w,
            res_privateKey = privateKeys ! i\<rparr> \<in> set results"
    if "i < length privateKeys"
      and w: "fst (checkWalletEligibility l (world i) (privateKeys ! i)
                  (assignProxy cfg proxies i) cfg) = Inr w" for i w
  proof -
    from that(1) o have "i \<in> set order" by (rule completion_order_mem [rotated])
    moreover from walletTask_returns [OF w, of privateKeys]
    have "projr (fst (walletTask l (world i) cfg proxies privateKeys (privateKeys ! i) i))
            = \<lparr>res_publicKey = res_publicKey w, res_eligible = res_eligible w,
            res_amount = res_amount w, res_error = res_error w,
            res_privateKey = privateKeys ! i\<rparr>" by simp
    ultimately show ?thesis unfolding results_def by force
  qed
qed

section \<open>Counting the lines of a file\<close>

lemma digit_in_digits: "d < 10 \<Longrightarrow> digit d \<in> set ''0123456789''"
  unfolding digit_def by (rule nth_mem) simp

lemma set_show_nat: "set (show_nat n) \<subseteq> set ''0123456789''"
proof (induction n rule: show_nat.induct)
  case (1 n)
  show ?case
  proof (cases "n < 10")
    case True
    with digit_in_digits [of n] show ?thesis by (subst show_nat.simps) simp
  next
    case False
    have "n mod 10 < 10" by simp
    from digit_in_digits [OF this] "1.IH" [OF False] False show ?thesis
      by (subst show_nat.simps) simp
  qed
qed

lemma newline_notin_show_nat: "CHR 0x0A \<notin> set (show_nat n)"
  using set_show_nat [of n] by auto

lemma newline_notin_show_int: "CHR 0x0A \<notin> set (show_int i)"
  by (simp add: show_int_def newline_notin_show_nat)

lemma count_list_join:
  "(\<And>x. x \<in> set xs \<Longrightarrow> c \<notin> set x) \<Longrightarrow> count_list (join [c] xs) c = length xs - 1"
proof (induction "[c]" xs rule: join.induct)
  case 1
  then show ?case by simp
next
  case (2 x)
  then show ?case by (simp add: count_notin)
next
  case (3 x y ys)
  then show ?case by (simp add: count_notin)
qed

lemma join_eq_Nil: "(\<And>x. x \<in> set xs \<Longrightarrow> x \<noteq> []) \<Longrightarrow> join sep xs = [] \<longleftrightarrow> xs = []"
  by (induction sep xs rule: join.induct) simp_all

lemma line_count_join:
  assumes "\<And>x. x \<in> set xs \<Longrightarrow> x \<noteq> [] \<and> CHR 0x0A \<notin> set x"
  shows "line_count (join newline xs) = length xs"
proof (cases "xs = []")
  case True
  then show ?thesis by (simp add: line_count_def)
next
  case False
  with assms have "join newline xs \<noteq> []" by (simp add: join_eq_Nil)
  moreover from assms have "count_list (join newline xs) (CHR 0x0A) = length xs - 1"
    unfolding newline_def by (intro count_list_join) simp
  ultimately show ?thesis using False by (simp add: line_count_def)
qed

lemma createKeypairFromPrivateKey_Some:
  "createKeypairFromPrivateKey l privateKey = (Some kp, ios) \<Longrightarrow> \<exists>b. fromSecretKey l b = Inr kp"
  by (auto simp: createKeypairFromPrivateKey_def split: sum.splits)

text \<open>The public-key field of a wallet's result has no line feed when its sources have none.\<close>

lemma newline_notin_res_publicKey:
  assumes r: "0 \<le> retries (retryOptions cfg)"
    and w: "fst (checkWalletEligibility l t privateKey proxy cfg) = Inr w"
    and k: "CHR 0x0A \<notin> set privateKey"
    and p: "\<And>b kp. fromSecretKey l b = Inr kp \<Longrightarrow> CHR 0x0A \<notin> set (publicKeyBase58 kp)"
  shows "CHR 0x0A \<notin> set (res_publicKey w)"
  using r
proof (cases rule: checkWalletEligibility_cases
      [where l = l and privateKey = privateKey and t = t and proxy = "proxy"])
  case (no_keypair ios)
  with w show ?thesis by auto
next
  case (no_signature kp ios1 ios2)
  with w p createKeypairFromPrivateKey_Some [OF no_signature(1)] show ?thesis by auto
next
  case (api_throws kp ios1 sd ios2 msg evs3)
  from k have "CHR 0x0A \<notin> set (take 4 privateKey)" by (auto dest: in_set_takeD)
  with w api_throws(4) show ?thesis by (auto split: if_splits)
next
  case (api_returns kp ios1 sd ios2 r evs3 lv m)
  with w p createKeypairFromPrivateKey_Some [OF api_returns(1)] show ?thesis by auto
qed

section \<open>Requests that get no answer\<close>

lemma checkPawsEligibility_no_response:
  assumes "fst (createApiClient pa proxy cfg) = Inr client"
    and "\<And>req. po req = RejectedRequest msg"
  shows "fst (checkPawsEligibility pa po sd pk proxy cfg)
           = Inl (Error (''No response from API: '' @ msg))"
proof -
  obtain ios where c: "createApiClient pa proxy cfg = (Inr client, ios)"
    using assms(1) by (cases "createApiClient pa proxy cfg") simp
  obtain agent ua where "client = (agent, ua)" by (cases client)
  with c assms(2) show ?thesis by (simp add: checkPawsEligibility_def Let_def)
qed

section \<open>The proxy of the requests\<close>

text \<open>The proxy that \<open>createApiClient\<close> routes through: none when the argument is falsy.\<close>

lemma posts_map_Log [simp]: "posts (map (\<lambda>m. Io (Log lv m w)) ms) = []"
  by (induction ms) simp_all

lemma posts_createApiClient: "posts (map Io (snd (createApiClient pa proxy cfg))) = []"
  by (simp add: createApiClient_def split: option.splits)

lemma createApiClient_agent:
  "createApiClient pa proxy cfg = (Inr (agent, ua), ios) \<Longrightarrow>
   agent = (case proxy of None \<Rightarrow> None | Some p \<Rightarrow> if p = [] then None else Some p)"
  by (auto simp: createApiClient_def split: option.splits if_splits)

lemma posts_checkPawsEligibility:
  assumes "req \<in> set (posts (map Io (snd (checkPawsEligibility pa po sd pk proxy cfg))))"
  shows "req_proxy req = (case proxy of None \<Rightarrow> None | Some p \<Rightarrow> if p = [] then None else Some p)"
proof -
  obtain c ios where c: "createApiClient pa proxy cfg = (c, ios)"
    by (cases "createApiClient pa proxy cfg")
  with posts_createApiClient [of pa proxy cfg] have none: "posts (map Io ios) = []" by simp
  show ?thesis
  proof (cases c)
    case (Inl e)
    with c none assms show ?thesis by (simp add: checkPawsEligibility_def)
  next
    case (Inr client)
    obtain agent ua where client: "client = (agent, ua)" by (cases client)
    from c Inr client have "createApiClient pa proxy cfg = (Inr (agent, ua), ios)" by simp
    from createApiClient_agent [OF this]
    have agent: "agent = (case proxy of None \<Rightarrow> None | Some p \<Rightarrow> if p = [] then None else Some p)" .
    from assms c Inr client none have "req_proxy req = agent"
      by (auto simp: checkPawsEligibility_def Let_def
          split: axios_result.splits option.splits if_splits)
    with agent show ?thesis by simp
  qed
qed

lemma posts_checkEligibilityWithRetry_loop:
  "req \<in> set (posts (snd (checkEligibilityWithRetry_loop pa po rnd sd pk proxy cfg opts
                            retryCount lastError))) \<Longrightarrow>
   req_proxy req = (case proxy of None \<Rightarrow> None | Some p \<Rightarrow> if p = [] then None else Some p)"
proof (induction pa po rnd sd pk proxy cfg opts retryCount lastError
    rule: checkEligibilityWithRetry_loop.induct)
  case (1 pa po rnd sd pk proxy cfg opts retryCount lastError)
  note here = posts_checkPawsEligibility [of req pa "po retryCount" sd pk "proxy" cfg]
  show ?case
  proof (cases pa po rnd sd pk proxy cfg opts retryCount lastError
      rule: checkEligibilityWithRetry_loop_cases)
    case stop
    with "1.prems" show ?thesis by simp
  next
    case (success v ios)
    with "1.prems" here show ?thesis by simp
  next
    case (give_up msg ios m)
    with "1.prems" here show ?thesis by simp
  next
    case (retry msg ios m)
    from "1.prems" retry(4)
    have "req \<in> set (posts (map Io ios))
          \<or> req \<in> set (posts (snd (checkEligibilityWithRetry_loop pa po rnd sd pk proxy cfg opts
                                      (retryCount + 1) (Error msg))))"
      by simp
    then show ?thesis
    proof
      assume "req \<in> set (posts (map Io ios))"
      with here retry(2) show ?thesis by simp
    next
      assume "req \<in> set (posts (snd (checkEligibilityWithRetry_loop pa po rnd sd pk proxy cfg opts
                                      (retryCount + 1) (Error msg))))"
      with "1.IH" [OF retry(1) retry(2) [symmetric] refl] retry(3) show ?thesis by simp
    qed
  qed
qed

lemma posts_createKeypairFromPrivateKey:
  "createKeypairFromPrivateKey l privateKey = (kp, ios) \<Longrightarrow> posts (map Io ios) = []"
  by (auto simp: createKeypairFromPrivateKey_def split: sum.splits)

lemma posts_signMessage: "signMessage l kp message = (sd, ios) \<Longrightarrow> posts (map Io ios) = []"
  by (auto simp: signMessage_def split: sum.splits)

lemma posts_randomSleep [simp]: "posts (randomSleep mn mx r) = []"
  by (simp add: randomSleep_def Let_def)

lemma posts_checkWalletEligibility:
  assumes "req \<in> set (posts (snd (checkWalletEligibility l t privateKey proxy cfg)))"
  shows "req_proxy req = (case proxy of None \<Rightarrow> None | Some p \<Rightarrow> if p = [] then None else Some p)"
proof (cases "0 \<le> retries (retryOptions cfg)")
  case False
  with assms show ?thesis by (simp add: checkWalletEligibility_negative)
next
  case True
  have api: "req \<in> set (posts evs3) \<Longrightarrow> ?thesis"
    if "checkEligibilityWithRetry (proxyAgent l) (post t) (rndApi t) sd pk proxy cfg
          (retryOptions cfg) = (res, evs3)" for sd pk res evs3
    using that posts_checkEligibilityWithRetry_loop
      [of req "proxyAgent l" "post t" "rndApi t" sd pk "proxy" cfg "retryOptions cfg" 0 Undefined]
    by (simp add: checkEligibilityWithRetry_def)
  from True show ?thesis
  proof (cases rule: checkWalletEligibility_cases
      [where l = l and privateKey = privateKey and t = t and proxy = "proxy"])
    case (no_keypair ios)
    with assms posts_createKeypairFromPrivateKey [OF no_keypair(1)] show ?thesis by simp
  next
    case (no_signature kp ios1 ios2)
    with assms posts_createKeypairFromPrivateKey [OF no_signature(1)]
      posts_signMessage [OF no_signature(2)] show ?thesis by simp
  next
    case (api_throws kp ios1 sd ios2 msg evs3)
    with assms posts_createKeypairFromPrivateKey [OF api_throws(1)]
      posts_signMessage [OF api_throws(2)] have "req \<in> set (posts evs3)" by simp
    with api [OF api_throws(3)] show ?thesis .
  next
    case (api_returns kp ios1 sd ios2 r evs3 lv m)
    with assms posts_createKeypairFromPrivateKey [OF api_returns(1)]
      posts_signMessage [OF api_returns(2)] have "req \<in> set (posts evs3)" by simp
    with api [OF api_returns(3)] show ?thesis .
  qed
qed

lemma posts_walletTask:
  assumes "req \<in> set (posts (snd (walletTask l t cfg proxies privateKeys privateKey index)))"
  shows "req_proxy req = (case assignProxy cfg proxies index of None \<Rightarrow> None
                          | Some p \<Rightarrow> if p = [] then None else Some p)"
proof -
  obtain res evs where c:
    "checkWalletEligibility l t privateKey (assignProxy cfg proxies index) cfg = (res, evs)"
    by (cases "checkWalletEligibility l t privateKey (assignProxy cfg proxies index) cfg")
  with assms have "req \<in> set (posts evs)"
    by (cases res) (auto simp: walletTask_def split: if_splits)
  with c posts_checkWalletEligibility [of req l t privateKey "assignProxy cfg proxies index" cfg]
  show ?thesis by simp
qed

section \<open>A line of a joined file\<close>

text \<open>
  An entry of the array is in the joined content as a whole line: what precedes it is
  nothing or ends with the separator, what follows is nothing or starts with it.
\<close>

lemma join_contains_line:
  "x \<in> set xs \<Longrightarrow>
   \<exists>pre suf. join sep xs = pre @ x @ suf
     \<and> (pre = [] \<or> (\<exists>p. pre = p @ sep)) \<and> (suf = [] \<or> (\<exists>s. suf = sep @ s))"
proof (induction sep xs rule: join.induct)
  case (1 sep)
  then show ?case by simp
next
  case (2 sep y)
  then have "join sep [y] = [] @ x @ []" by simp
  then show ?case by blast
next
  case (3 sep y z zs)
  show ?case
  proof (cases "x = y")
    case True
    then have "join sep (y # z # zs) = [] @ x @ (sep @ join sep (z # zs))" by simp
    then show ?thesis by blast
  next
    case False
    with "3.prems" have "x \<in> set (z # zs)" by simp
    from "3.IH" [OF this] obtain pre suf where j: "join sep (z # zs) = pre @ x @ suf"
      and p: "pre = [] \<or> (\<exists>p. pre = p @ sep)" and s: "suf = [] \<or> (\<exists>s. suf = sep @ s)"
      by blast
    from j have "join sep (y # z # zs) = (y @ sep @ pre) @ x @ suf" by simp
    moreover from p have "\<exists>p. y @ sep @ pre = p @ sep"
    proof
      assume "pre = []"
      then show ?thesis by simp
    next
      assume "\<exists>p. pre = p @ sep"
      then obtain p where "pre = p @ sep" ..
      then have "y @ sep @ pre = (y @ sep @ p) @ sep" by simp
      then show ?thesis ..
    qed
    ultimately show ?thesis using s by blast
  qed
qed

section \<open>The claims\<close>

text \<open>
  C2. With \<open>retries = k \<ge> 0\<close>, \<open>withRetry\<close> and \<open>checkEligibilityWithRetry\<close> call the
  operation at most \<open>k + 1\<close> times; when the call after \<open>i\<close> failures is the first to
  return, its result is returned after exactly \<open>i + 1\<close> calls; every backoff delay is at
  most \<open>maxTimeout\<close>; and with \<open>k = 0\<close> the operation is called exactly once, with no
  backoff, and what it throws is thrown on.
\<close>

theorem retry_executor_bounds:
  assumes "0 \<le> retries opts"
  shows "invocations (snd (withRetry operation rnd opts)) \<le> nat (retries opts) + 1
    \<and> (\<forall>i v. int i \<le> retries opts \<and> (\<forall>j<i. isl (fst (operation j))) \<and> fst (operation i) = Inr v
          \<longrightarrow> fst (withRetry operation rnd opts) = Inr v
              \<and> invocations (snd (withRetry operation rnd opts)) = i + 1)
    \<and> (\<forall>b \<in> set (backoffs (snd (withRetry operation rnd opts))). b \<le> maxTimeout opts)
    \<and> (retries opts = 0
          \<longrightarrow> invocations (snd (withRetry operation rnd opts)) = 1
              \<and> backoffs (snd (withRetry operation rnd opts)) = []
              \<and> (\<forall>e. fst (operation 0) = Inl e \<longrightarrow> fst (withRetry operation rnd opts) = Inl e))
    \<and> invocations (snd (checkEligibilityWithRetry pa po rnd' sd pk proxy cfg opts))
          \<le> nat (retries opts) + 1
    \<and> (\<forall>i v. int i \<le> retries opts
              \<and> (\<forall>j<i. isl (fst (checkPawsEligibility pa (po j) sd pk proxy cfg)))
              \<and> fst (checkPawsEligibility pa (po i) sd pk proxy cfg) = Inr v
          \<longrightarrow> fst (checkEligibilityWithRetry pa po rnd' sd pk proxy cfg opts) = Inr v
              \<and> invocations (snd (checkEligibilityWithRetry pa po rnd' sd pk proxy cfg opts)) = i + 1)
    \<and> (\<forall>b \<in> set (backoffs (snd (checkEligibilityWithRetry pa po rnd' sd pk proxy cfg opts))).
          b \<le> maxTimeout opts)
    \<and> (retries opts = 0
          \<longrightarrow> invocations (snd (checkEligibilityWithRetry pa po rnd' sd pk proxy cfg opts)) = 1
              \<and> backoffs (snd (checkEligibilityWithRetry pa po rnd' sd pk proxy cfg opts)) = []
              \<and> (\<forall>e. fst (checkPawsEligibility pa (po 0) sd pk proxy cfg) = Inl e
                    \<longrightarrow> fst (checkEligibilityWithRetry pa po rnd' sd pk proxy cfg opts) = Inl e))"
proof -
  let ?W = "withRetry_loop operation rnd opts 0 Undefined"
  let ?E = "checkEligibilityWithRetry_loop pa po rnd' sd pk proxy cfg opts 0 Undefined"
  have w1: "invocations (snd ?W) \<le> nat (retries opts) + 1"
    using withRetry_loop_invocations_le [of operation rnd opts 0 Undefined] assms by simp
  have w2: "\<forall>i v. int i \<le> retries opts \<and> (\<forall>j<i. isl (fst (operation j))) \<and> fst (operation i) = Inr v
          \<longrightarrow> fst ?W = Inr v \<and> invocations (snd ?W) = i + 1"
  proof (intro allI impI)
    fix i v
    assume "int i \<le> retries opts \<and> (\<forall>j<i. isl (fst (operation j))) \<and> fst (operation i) = Inr v"
    with withRetry_loop_first_success [of 0 i opts operation v rnd Undefined]
    show "fst ?W = Inr v \<and> invocations (snd ?W) = i + 1" by simp
  qed
  have w3: "\<forall>b \<in> set (backoffs (snd ?W)). b \<le> maxTimeout opts"
    by (intro ballI) (rule withRetry_loop_backoffs_le)
  have w4: "retries opts = 0 \<longrightarrow> invocations (snd ?W) = 1 \<and> backoffs (snd ?W) = []
              \<and> (\<forall>e. fst (operation 0) = Inl e \<longrightarrow> fst ?W = Inl e)"
  proof
    assume z: "retries opts = 0"
    show "invocations (snd ?W) = 1 \<and> backoffs (snd ?W) = []
              \<and> (\<forall>e. fst (operation 0) = Inl e \<longrightarrow> fst ?W = Inl e)"
    proof (cases rule: withRetry_loop_cases
        [where operation = operation and rnd = rnd and opts = opts and retryCount = 0
           and lastError = Undefined])
      case stop
      with z show ?thesis by simp
    next
      case (success v ios)
      then show ?thesis by simp
    next
      case (give_up e ios)
      then show ?thesis by simp
    next
      case (retry e ios m)
      with z show ?thesis by simp
    qed
  qed
  have e1: "invocations (snd ?E) \<le> nat (retries opts) + 1"
    using checkEligibilityWithRetry_loop_invocations_le [of pa po rnd' sd pk proxy cfg opts 0 Undefined]
      assms by simp
  have e2: "\<forall>i v. int i \<le> retries opts
              \<and> (\<forall>j<i. isl (fst (checkPawsEligibility pa (po j) sd pk proxy cfg)))
              \<and> fst (checkPawsEligibility pa (po i) sd pk proxy cfg) = Inr v
          \<longrightarrow> fst ?E = Inr v \<and> invocations (snd ?E) = i + 1"
  proof (intro allI impI)
    fix i v
    assume "int i \<le> retries opts
              \<and> (\<forall>j<i. isl (fst (checkPawsEligibility pa (po j) sd pk proxy cfg)))
              \<and> fst (checkPawsEligibility pa (po i) sd pk proxy cfg) = Inr v"
    with checkEligibilityWithRetry_loop_first_success [of 0 i opts pa po sd pk proxy cfg v rnd' Undefined]
    show "fst ?E = Inr v \<and> invocations (snd ?E) = i + 1" by simp
  qed
  have e3: "\<forall>b \<in> set (backoffs (snd ?E)). b \<le> maxTimeout opts"
    by (intro ballI) (rule checkEligibilityWithRetry_loop_backoffs_le)
  have e4: "retries opts = 0 \<longrightarrow> invocations (snd ?E) = 1 \<and> backoffs (snd ?E) = []
              \<and> (\<forall>e. fst (checkPawsEligibility pa (po 0) sd pk proxy cfg) = Inl e \<longrightarrow> fst ?E = Inl e)"
  proof
    assume z: "retries opts = 0"
    show "invocations (snd ?E) = 1 \<and> backoffs (snd ?E) = []
              \<and> (\<forall>e. fst (checkPawsEligibility pa (po 0) sd pk proxy cfg) = Inl e \<longrightarrow> fst ?E = Inl e)"
    proof (cases rule: checkEligibilityWithRetry_loop_cases
        [where pa = pa and po = po and rnd = rnd' and sd = sd and pk = pk and proxy = "proxy"
           and cfg = cfg and opts = opts and retryCount = 0 and lastError = Undefined])
      case stop
      with z show ?thesis by simp
    next
      case (success v ios)
      then show ?thesis by simp
    next
      case (give_up msg ios m)
      then show ?thesis by simp
    next
      case (retry msg ios m)
      with z show ?thesis by simp
    qed
  qed
  show ?thesis
    unfolding withRetry_def checkEligibilityWithRetry_def
    by (intro conjI w1 w2 w3 w4 e1 e2 e3 e4)
qed

theorem retry_executor_bounds_witness:
  "0 \<le> retries ex_retryOptions
   \<and> invocations (snd (withRetry ex_operation ex_rnd ex_retryOptions)) = 2
   \<and> fst (withRetry ex_operation ex_rnd ex_retryOptions) = Inr 7
   \<and> backoffs (snd (withRetry ex_operation ex_rnd ex_retryOptions)) = [1000]"
proof -
  have h: "0 \<le> retries ex_retryOptions" by (simp add: ex_retryOptions_def)
  note t = retry_executor_bounds [OF h, of ex_operation ex_rnd]
  have "int 1 \<le> retries ex_retryOptions \<and> (\<forall>j<1. isl (fst (ex_operation j)))
      \<and> fst (ex_operation 1) = Inr 7"
    by (simp add: ex_retryOptions_def ex_operation_def)
  with t [THEN conjunct2, THEN conjunct1, rule_format, of 1 7]
  have "fst (withRetry ex_operation ex_rnd ex_retryOptions) = Inr 7
          \<and> invocations (snd (withRetry ex_operation ex_rnd ex_retryOptions)) = 1 + 1" .
  moreover have "backoffs (snd (withRetry ex_operation ex_rnd ex_retryOptions)) = [1000]"
    by (simp add: withRetry_def withRetry_loop.simps ex_operation_def ex_retryOptions_def
        ex_rnd_def backoffTime_def math_round_def)
  ultimately show ?thesis using h by simp
qed


text \<open>
  C1. A run that passes the setup (configuration and keys read, at least one key, a
  concurrency the limiter accepts, \<open>retries\<close> not negative) ends with exactly one outcome
  per wallet: \<open>results\<close> has as many entries as there are keys, the entry pushed by the
  task of index \<open>i\<close> carries key \<open>i\<close>, and the lines joined into the two files number as
  many as the keys. When the file system accepts the writes, these are the two files
  written; when no key and no public key contains a line feed, the line counts of the two
  contents add up to the number of keys.
\<close>

theorem one_outcome_per_wallet:
  fixes cfg :: config and readProxies privateKeys :: "string list" and l :: libs
    and world :: "nat \<Rightarrow> task" and order :: "nat list" and f :: fs
  assumes r: "0 \<le> retries (retryOptions cfg)"
    and c: "1 \<le> concurrency cfg"
    and k: "privateKeys \<noteq> []"
    and o: "completion_order (length privateKeys) order"
  shows "\<exists>results.
      fst (main l world f (Inr cfg) (Inr privateKeys) readProxies order) = Completed results
    \<and> length results = length privateKeys
    \<and> map res_privateKey results = map (\<lambda>i. privateKeys ! i) order
    \<and> length (eligibleWallets results) + length (notEligibleWallets results) = length privateKeys
    \<and> (ensureDir f ''result'' = None
         \<and> (\<forall>content. writeFile f ''result/eligible.txt'' content = None)
         \<and> (\<forall>content. writeFile f ''result/noteligible.txt'' content = None)
        \<longrightarrow> writes (snd (main l world f (Inr cfg) (Inr privateKeys) readProxies order))
              = [(''result/eligible.txt'', join newline (eligibleWallets results)),
                 (''result/noteligible.txt'', join newline (notEligibleWallets results))])
    \<and> ((\<forall>key \<in> set privateKeys. CHR 0x0A \<notin> set key)
         \<and> (\<forall>b kp. fromSecretKey l b = Inr kp \<longrightarrow> CHR 0x0A \<notin> set (publicKeyBase58 kp))
        \<longrightarrow> line_count (join newline (eligibleWallets results))
              + line_count (join newline (notEligibleWallets results)) = length privateKeys)"
proof -
  define proxies where "proxies = (if enableProxy cfg then readProxies else [])"
  define results where "results = map (\<lambda>i. projr (fst (walletTask l (world i) cfg proxies privateKeys
                                                (privateKeys ! i) i))) order"
  note m = main_completes [where l = l and world = world and readProxies = readProxies,
      OF r c k o, folded proxies_def, folded results_def]
  have len: "length results = length privateKeys" by (rule m(3))
  have parts: "length (eligibleWallets results) + length (notEligibleWallets results)
                 = length privateKeys"
    unfolding eligibleWallets_def notEligibleWallets_def
    using sum_length_filter_compl [of "\<lambda>r. res_eligible r" results] len by simp
  have files: "writes (snd (main l world f (Inr cfg) (Inr privateKeys) readProxies order))
              = [(''result/eligible.txt'', join newline (eligibleWallets results)),
                 (''result/noteligible.txt'', join newline (notEligibleWallets results))]"
    if "ensureDir f ''result'' = None
         \<and> (\<forall>content. writeFile f ''result/eligible.txt'' content = None)
         \<and> (\<forall>content. writeFile f ''result/noteligible.txt'' content = None)"
    using that m(2) [where f = f] by (simp add: writes_saveResults)
  have lines: "line_count (join newline (eligibleWallets results))
              + line_count (join newline (notEligibleWallets results)) = length privateKeys"
    if h: "(\<forall>key \<in> set privateKeys. CHR 0x0A \<notin> set key)
         \<and> (\<forall>b kp. fromSecretKey l b = Inr kp \<longrightarrow> CHR 0x0A \<notin> set (publicKeyBase58 kp))"
  proof -
    have clean: "CHR 0x0A \<notin> set (res_privateKey x) \<and> CHR 0x0A \<notin> set (res_publicKey x)"
      if "x \<in> set results" for x
    proof -
      from m(5) [OF that] obtain i w where i: "i < length privateKeys"
        and w: "fst (checkWalletEligibility l (world i) (privateKeys ! i)
                      (assignProxy cfg proxies i) cfg) = Inr w"
        and x: "x = \<lparr>res_publicKey = res_publicKey w, res_eligible = res_eligible w,
                      res_amount = res_amount w, res_error = res_error w,
                      res_privateKey = privateKeys ! i\<rparr>" by blast
      from i h have key: "CHR 0x0A \<notin> set (privateKeys ! i)" by simp
      from h have "\<And>b kp. fromSecretKey l b = Inr kp \<Longrightarrow> CHR 0x0A \<notin> set (publicKeyBase58 kp)"
        by blast
      from newline_notin_res_publicKey [OF r w key this] key x show ?thesis by simp
    qed
    have el: "line_count (join newline (eligibleWallets results)) = length (eligibleWallets results)"
    proof (rule line_count_join)
      fix y assume "y \<in> set (eligibleWallets results)"
      then obtain x where "x \<in> set results"
        and "y = res_privateKey x @ '':'' @ res_publicKey x @ '':''
               @ (case res_amount x of None \<Rightarrow> ''undefined'' | Some n \<Rightarrow> show_int n)"
        by (auto simp: eligibleWallets_def)
      with clean [of x] show "y \<noteq> [] \<and> CHR 0x0A \<notin> set y"
        by (simp add: newline_notin_show_int split: option.splits)
    qed
    have ne: "line_count (join newline (notEligibleWallets results))
                = length (notEligibleWallets results)"
    proof (rule line_count_join)
      fix y assume "y \<in> set (notEligibleWallets results)"
      then obtain x where "x \<in> set results" and "y = res_privateKey x @ '':'' @ res_publicKey x"
        by (auto simp: notEligibleWallets_def)
      with clean [of x] show "y \<noteq> [] \<and> CHR 0x0A \<notin> set y" by simp
    qed
    from el ne parts show ?thesis by simp
  qed
  from m(1) [where f = f] len m(4) parts files lines show ?thesis by blast
qed

theorem one_outcome_per_wallet_witness:
  "\<exists>results.
      fst (main ex_libs ex_world ex_fs (Inr ex_config) (Inr [''key1'', ''bad!'']) [''http://p1''] [1, 0])
        = Completed results
    \<and> length results = 2
    \<and> map res_privateKey results = [''bad!'', ''key1'']
    \<and> writes (snd (main ex_libs ex_world ex_fs (Inr ex_config) (Inr [''key1'', ''bad!''])
                      [''http://p1''] [1, 0]))
        = [(''result/eligible.txt'', join newline (eligibleWallets results)),
           (''result/noteligible.txt'', join newline (notEligibleWallets results))]
    \<and> line_count (join newline (eligibleWallets results))
        + line_count (join newline (notEligibleWallets results)) = 2"
proof -
  have r: "0 \<le> retries (retryOptions ex_config)"
    by (simp add: ex_config_def ex_retryOptions_def)
  have c: "1 \<le> concurrency ex_config" by (simp add: ex_config_def)
  have k: "[''key1'', ''bad!''] \<noteq> []" by simp
  have o: "completion_order (length [''key1'', ''bad!'']) [1, 0]" by code_simp
  have f: "ensureDir ex_fs ''result'' = None
         \<and> (\<forall>content. writeFile ex_fs ''result/eligible.txt'' content = None)
         \<and> (\<forall>content. writeFile ex_fs ''result/noteligible.txt'' content = None)"
    by (simp add: ex_fs_def)
  have n: "(\<forall>key \<in> set [''key1'', ''bad!'']. CHR 0x0A \<notin> set key)
         \<and> (\<forall>b kp. fromSecretKey ex_libs b = Inr kp \<longrightarrow> CHR 0x0A \<notin> set (publicKeyBase58 kp))"
    by (auto simp: ex_libs_def)
  from one_outcome_per_wallet [where l = ex_libs and world = ex_world and f = ex_fs
      and readProxies = "[''http://p1'']", OF r c k o] f n
  show ?thesis by auto
qed





text \<open>
  C4. When a POST gets no response, \<open>checkPawsEligibility\<close> throws
  \<open>No response from API: <message>\<close>. With \<open>retries = 2\<close> and no response at any attempt
  for the wallet of index \<open>i\<close> (whose keypair and signature are fine),
  \<open>checkEligibilityWithRetry\<close> makes exactly 3 calls; the run completes, the outcome of
  that wallet is in \<open>results\<close> with \<open>eligible = false\<close> and the message of the last
  failure as its error, and both files are written when the file system accepts the writes.
\<close>

theorem transport_failure_exhausts_retries:
  fixes cfg :: config and readProxies privateKeys :: "string list" and l :: libs
    and world :: "nat \<Rightarrow> task" and order :: "nat list" and f :: fs
  defines "proxies \<equiv> (if enableProxy cfg then readProxies else [])"
  assumes two: "retries (retryOptions cfg) = 2"
    and c: "1 \<le> concurrency cfg"
    and o: "completion_order (length privateKeys) order"
    and i: "i < length privateKeys"
    and key: "privateKeys ! i \<noteq> []"
    and kp: "createKeypairFromPrivateKey l (privateKeys ! i) = (Some kp, ios1)"
    and sd: "signMessage l kp (signatureMessage cfg) = (Some sd, ios2)"
    and cl: "fst (createApiClient (proxyAgent l) (assignProxy cfg proxies i) cfg) = Inr client"
    and down: "\<forall>n req. post (world i) n req = RejectedRequest (msg n)"
  shows "fst (checkPawsEligibility (proxyAgent l) (post (world i) n) sd (publicKeyBase58 kp)
                (assignProxy cfg proxies i) cfg)
           = Inl (Error (''No response from API: '' @ msg n))
    \<and> invocations (snd (checkEligibilityWithRetry (proxyAgent l) (post (world i))
                          (rndApi (world i)) sd (publicKeyBase58 kp)
                          (assignProxy cfg proxies i) cfg (retryOptions cfg))) = 3
    \<and> (\<exists>results.
          fst (main l world f (Inr cfg) (Inr privateKeys) readProxies order) = Completed results
        \<and> \<lparr>res_publicKey = take 4 (privateKeys ! i) @ ''...'', res_eligible = False,
            res_amount = None, res_error = Some (''No response from API: '' @ msg 2),
            res_privateKey = privateKeys ! i\<rparr> \<in> set results)
    \<and> (ensureDir f ''result'' = None
         \<and> (\<forall>content. writeFile f ''result/eligible.txt'' content = None)
         \<and> (\<forall>content. writeFile f ''result/noteligible.txt'' content = None)
        \<longrightarrow> map fst (writes (snd (main l world f (Inr cfg) (Inr privateKeys) readProxies order)))
              = [''result/eligible.txt'', ''result/noteligible.txt''])"
proof -
  let ?proxy = "assignProxy cfg proxies i"
  let ?call = "\<lambda>n. checkPawsEligibility (proxyAgent l) (post (world i) n) sd (publicKeyBase58 kp)
                      ?proxy cfg"
  let ?retry = "checkEligibilityWithRetry (proxyAgent l) (post (world i)) (rndApi (world i)) sd
                  (publicKeyBase58 kp) ?proxy cfg (retryOptions cfg)"
  from two have r: "0 \<le> retries (retryOptions cfg)" by simp
  from i have k: "privateKeys \<noteq> []" by auto
  have call: "fst (?call n) = Inl (Error (''No response from API: '' @ msg n))" for n
    by (rule checkPawsEligibility_no_response [OF cl]) (simp add: down)
  from two have "int 0 \<le> retries (retryOptions cfg)" by simp
  from checkEligibilityWithRetry_loop_all_fail
    [where errs = "\<lambda>n. ''No response from API: '' @ msg n" and rnd = "rndApi (world i)"
       and lastError = Undefined, OF this] call two
  have thrown: "fst ?retry = Inl (Error (''No response from API: '' @ msg 2))"
    and calls: "invocations (snd ?retry) = 3"
    by (simp_all add: checkEligibilityWithRetry_def)
  obtain evs3 where "?retry = (Inl (Error (''No response from API: '' @ msg 2)), evs3)"
    using thrown by (cases ?retry) simp
  from checkWalletEligibility_api_throws [OF r kp sd this] key
  have w: "fst (checkWalletEligibility l (world i) (privateKeys ! i) ?proxy cfg)
             = Inr \<lparr>res_publicKey = take 4 (privateKeys ! i) @ ''...'', res_eligible = False,
                    res_amount = None, res_error = Some (''No response from API: '' @ msg 2)\<rparr>"
    by simp
  note m = main_completes [where l = l and world = world and readProxies = readProxies,
      OF r c k o, folded proxies_def]
  from m(6) [OF i w]
  have mem: "\<lparr>res_publicKey = take 4 (privateKeys ! i) @ ''...'', res_eligible = False,
            res_amount = None, res_error = Some (''No response from API: '' @ msg 2),
            res_privateKey = privateKeys ! i\<rparr>
          \<in> set (map (\<lambda>i. projr (fst (walletTask l (world i) cfg proxies privateKeys
                                        (privateKeys ! i) i))) order)"
    by simp
  have files: "map fst (writes (snd (main l world f (Inr cfg) (Inr privateKeys) readProxies order)))
              = [''result/eligible.txt'', ''result/noteligible.txt'']"
    if "ensureDir f ''result'' = None
         \<and> (\<forall>content. writeFile f ''result/eligible.txt'' content = None)
         \<and> (\<forall>content. writeFile f ''result/noteligible.txt'' content = None)"
    using that m(2) [where f = f] by (simp add: writes_saveResults)
  from call calls m(1) [where f = f] mem files show ?thesis by blast
qed

theorem transport_failure_exhausts_retries_witness:
  "invocations (snd (checkEligibilityWithRetry (proxyAgent ex_libs) (post (ex_world 0))
                       (rndApi (ex_world 0)) ex_signed ''PUB1'' (Some ''http://p1'') ex_config
                       (retryOptions ex_config))) = 3
   \<and> (\<exists>results.
         fst (main ex_libs ex_world ex_fs (Inr ex_config) (Inr [''key1'', ''bad!''])
                [''http://p1''] [1, 0]) = Completed results
       \<and> \<lparr>res_publicKey = ''key1...'', res_eligible = False, res_amount = None,
           res_error = Some ''No response from API: timeout of 30000ms exceeded'',
           res_privateKey = ''key1''\<rparr> \<in> set results)
   \<and> map fst (writes (snd (main ex_libs ex_world ex_fs (Inr ex_config) (Inr [''key1'', ''bad!''])
                             [''http://p1''] [1, 0])))
       = [''result/eligible.txt'', ''result/noteligible.txt'']"
proof -
  let ?keys = "[''key1'', ''bad!'']"
  let ?kp = "\<lparr>publicKeyBase58 = ''PUB1'', secretKey = map of_char ''key1''\<rparr>"
  have two: "retries (retryOptions ex_config) = 2"
    by (simp add: ex_config_def ex_retryOptions_def)
  have c: "1 \<le> concurrency ex_config" by (simp add: ex_config_def)
  have o: "completion_order (length ?keys) [1, 0]" by code_simp
  have i: "0 < length ?keys" by simp
  have key: "?keys ! 0 \<noteq> []" by simp
  have kp: "createKeypairFromPrivateKey ex_libs (?keys ! 0) = (Some ?kp, [])"
    by (simp add: createKeypairFromPrivateKey_def ex_libs_def)
  have sd: "signMessage ex_libs ?kp (signatureMessage ex_config) = (Some ex_signed, [])"
    by (simp add: signMessage_def ex_libs_def ex_signed_def)
  have p: "assignProxy ex_config (if enableProxy ex_config then [''http://p1''] else []) 0
             = Some ''http://p1''"
    by (simp add: assignProxy_def ex_config_def)
  have cl: "fst (createApiClient (proxyAgent ex_libs)
                  (assignProxy ex_config (if enableProxy ex_config then [''http://p1''] else []) 0)
                  ex_config) = Inr (Some ''http://p1'', userAgent ex_config)"
    unfolding p by (simp add: createApiClient_def ex_libs_def)
  have down: "\<forall>n req. post (ex_world 0) n req = RejectedRequest ''timeout of 30000ms exceeded''"
    by (simp add: ex_world_def ex_task_def)
  have f: "ensureDir ex_fs ''result'' = None
         \<and> (\<forall>content. writeFile ex_fs ''result/eligible.txt'' content = None)
         \<and> (\<forall>content. writeFile ex_fs ''result/noteligible.txt'' content = None)"
    by (simp add: ex_fs_def)
  from transport_failure_exhausts_retries
    [where f = ex_fs and msg = "\<lambda>n. ''timeout of 30000ms exceeded''" and cfg = ex_config
       and privateKeys = ?keys and order = "[1, 0]" and i = 0 and l = ex_libs
       and world = ex_world and readProxies = "[''http://p1'']" and n = 0,
      OF two c o i key kp sd cl down, unfolded p] f
  show ?thesis by simp
qed









text \<open>
  C7. The wallet at input index \<open>i\<close> gets \<open>proxies[i mod P]\<close> when proxy usage is enabled
  and there are \<open>P > 0\<close> proxies, and \<open>null\<close> when there is none or proxy usage is
  disabled. The task queued for index \<open>i\<close> is a function of the index alone, and every
  request it sends goes through the proxy assigned to \<open>i\<close>; the outcomes of a run are the
  same for any two completion orders.
\<close>

theorem proxy_by_input_index:
  fixes cfg :: config and proxies privateKeys :: "string list" and l :: libs
    and world :: "nat \<Rightarrow> task" and f :: fs
  shows "(enableProxy cfg \<and> 0 < length proxies
        \<longrightarrow> assignProxy cfg proxies i = Some (proxies ! (i mod length proxies))
            \<and> i mod length proxies < length proxies)
    \<and> (length proxies = 0 \<or> \<not> enableProxy cfg \<longrightarrow> assignProxy cfg proxies i = None)
    \<and> (i < length privateKeys
        \<longrightarrow> tasks l world cfg proxies privateKeys ! i
              = walletTask l (world i) cfg proxies privateKeys (privateKeys ! i) i)
    \<and> (\<forall>req \<in> set (posts (snd (walletTask l (world i) cfg proxies privateKeys privateKey i))).
          req_proxy req = (case assignProxy cfg proxies i of None \<Rightarrow> None
                           | Some p \<Rightarrow> if p = [] then None else Some p))
    \<and> (0 \<le> retries (retryOptions cfg) \<and> 1 \<le> concurrency cfg \<and> privateKeys \<noteq> []
         \<and> completion_order (length privateKeys) order
         \<and> completion_order (length privateKeys) order'
        \<longrightarrow> (\<exists>results results'.
               fst (main l world f (Inr cfg) (Inr privateKeys) readProxies order) = Completed results
             \<and> fst (main l world f (Inr cfg) (Inr privateKeys) readProxies order')
                 = Completed results'
             \<and> set results = set results'))"
proof -
  have a: "enableProxy cfg \<and> 0 < length proxies
        \<longrightarrow> assignProxy cfg proxies i = Some (proxies ! (i mod length proxies))
            \<and> i mod length proxies < length proxies"
    by (simp add: assignProxy_def)
  have b: "length proxies = 0 \<or> \<not> enableProxy cfg \<longrightarrow> assignProxy cfg proxies i = None"
    by (auto simp: assignProxy_def)
  have c: "i < length privateKeys
        \<longrightarrow> tasks l world cfg proxies privateKeys ! i
              = walletTask l (world i) cfg proxies privateKeys (privateKeys ! i) i"
    by (simp add: nth_tasks)
  have d: "\<forall>req \<in> set (posts (snd (walletTask l (world i) cfg proxies privateKeys privateKey i))).
          req_proxy req = (case assignProxy cfg proxies i of None \<Rightarrow> None
                           | Some p \<Rightarrow> if p = [] then None else Some p)"
    by (intro ballI) (rule posts_walletTask)
  have e: "0 \<le> retries (retryOptions cfg) \<and> 1 \<le> concurrency cfg \<and> privateKeys \<noteq> []
         \<and> completion_order (length privateKeys) order
         \<and> completion_order (length privateKeys) order'
        \<longrightarrow> (\<exists>results results'.
               fst (main l world f (Inr cfg) (Inr privateKeys) readProxies order) = Completed results
             \<and> fst (main l world f (Inr cfg) (Inr privateKeys) readProxies order')
                 = Completed results'
             \<and> set results = set results')"
  proof (rule impI)
    assume h: "0 \<le> retries (retryOptions cfg) \<and> 1 \<le> concurrency cfg \<and> privateKeys \<noteq> []
         \<and> completion_order (length privateKeys) order
         \<and> completion_order (length privateKeys) order'"
    then have r: "0 \<le> retries (retryOptions cfg)" and cc: "1 \<le> concurrency cfg"
      and k: "privateKeys \<noteq> []" and o: "completion_order (length privateKeys) order"
      and o': "completion_order (length privateKeys) order'" by simp_all
    note m = main_completes(1) [where l = l and world = world and readProxies = readProxies
        and f = f, OF r cc k o]
    note m' = main_completes(1) [where l = l and world = world and readProxies = readProxies
        and f = f, OF r cc k o']
    from o o' have "set order = set order'" by (simp add: completion_order_def)
    then have "set (map (\<lambda>i. projr (fst (walletTask l (world i) cfg
                   (if enableProxy cfg then readProxies else []) privateKeys (privateKeys ! i) i)))
                 order)
             = set (map (\<lambda>i. projr (fst (walletTask l (world i) cfg
                   (if enableProxy cfg then readProxies else []) privateKeys (privateKeys ! i) i)))
                 order')"
      by simp
    with m m' show "\<exists>results results'.
               fst (main l world f (Inr cfg) (Inr privateKeys) readProxies order) = Completed results
             \<and> fst (main l world f (Inr cfg) (Inr privateKeys) readProxies order')
                 = Completed results'
             \<and> set results = set results'" by blast
  qed
  show ?thesis by (intro conjI a b c d e)
qed

theorem proxy_by_input_index_witness:
  "assignProxy ex_config [''http://p1'', ''http://p2''] 3 = Some ''http://p2''
   \<and> assignProxy ex_config [] 3 = None"
proof -
  have h: "enableProxy ex_config \<and> 0 < length [''http://p1'', ''http://p2'']"
    by (simp add: ex_config_def)
  have n: "length ([] :: string list) = 0 \<or> \<not> enableProxy ex_config" by simp
  have v: "[''http://p1'', ''http://p2''] ! (3 mod length [''http://p1'', ''http://p2''])
             = ''http://p2''"
    by code_simp
  from proxy_by_input_index [where cfg = ex_config and proxies = "[''http://p1'', ''http://p2'']"
      and i = 3, THEN conjunct1] h
  have "assignProxy ex_config [''http://p1'', ''http://p2''] 3
          = Some ([''http://p1'', ''http://p2''] ! (3 mod length [''http://p1'', ''http://p2'']))"
    by blast
  then have p: "assignProxy ex_config [''http://p1'', ''http://p2''] 3 = Some ''http://p2''"
    by (simp only: v)
  from proxy_by_input_index [where cfg = ex_config and proxies = "[]"
      and i = 3, THEN conjunct2, THEN conjunct1] n
  have "assignProxy ex_config [] 3 = None" by blast
  with p show ?thesis by (rule conjI)
qed



text \<open>
  C9. With no private key loaded, \<open>main\<close> logs the error and returns: the two log lines
  are all that happens, so no request is sent and no file is written. The run ends this way only when the key list is empty: with at
  least one key it never does, and with \<open>retries\<close> not negative and a concurrency the
  limiter accepts it completes whatever happens to the wallets.
\<close>

theorem empty_key_list_aborts:
  fixes cfg :: config and readProxies privateKeys :: "string list" and l :: libs
    and world :: "nat \<Rightarrow> task" and order :: "nat list" and f :: fs
  shows "main l world f (Inr cfg) (Inr []) readProxies order
           = (AbortedNoKeys,
              [Io (Log LInfo ''Configuration loaded'' []),
               Io (Log LError ''No private keys found in pk.txt'' [])])
    \<and> posts (snd (main l world f (Inr cfg) (Inr []) readProxies order)) = []
    \<and> writes (snd (main l world f (Inr cfg) (Inr []) readProxies order)) = []
    \<and> Io (Log LError ''No private keys found in pk.txt'' [])
        \<in> set (snd (main l world f (Inr cfg) (Inr []) readProxies order))
    \<and> (privateKeys \<noteq> []
        \<longrightarrow> fst (main l world f (Inr cfg) (Inr privateKeys) readProxies order) \<noteq> AbortedNoKeys)
    \<and> (privateKeys \<noteq> [] \<and> 0 \<le> retries (retryOptions cfg) \<and> 1 \<le> concurrency cfg
         \<and> completion_order (length privateKeys) order
        \<longrightarrow> (\<exists>results. fst (main l world f (Inr cfg) (Inr privateKeys) readProxies order)
                          = Completed results))"
proof -
  have empty: "main l world f (Inr cfg) (Inr []) readProxies order
                 = (AbortedNoKeys,
                    [Io (Log LInfo ''Configuration loaded'' []),
                     Io (Log LError ''No private keys found in pk.txt'' [])])"
    by (simp add: main_def)
  have other: "fst (main l world f (Inr cfg) (Inr privateKeys) readProxies order) \<noteq> AbortedNoKeys"
    if "privateKeys \<noteq> []"
    using that by (simp add: main_def Let_def split: option.splits)
  have completes: "\<exists>results. fst (main l world f (Inr cfg) (Inr privateKeys) readProxies order)
                          = Completed results"
    if "privateKeys \<noteq> [] \<and> 0 \<le> retries (retryOptions cfg) \<and> 1 \<le> concurrency cfg
         \<and> completion_order (length privateKeys) order"
  proof -
    from that have r: "0 \<le> retries (retryOptions cfg)" and c: "1 \<le> concurrency cfg"
      and k: "privateKeys \<noteq> []" and o: "completion_order (length privateKeys) order"
      by simp_all
    from main_completes(1) [where l = l and world = world and readProxies = readProxies
        and f = f, OF r c k o]
    show ?thesis by blast
  qed
  from empty other completes show ?thesis by simp
qed

theorem empty_key_list_aborts_witness:
  "main ex_libs ex_world ex_fs (Inr ex_config) (Inr []) [''http://p1''] []
     = (AbortedNoKeys,
        [Io (Log LInfo ''Configuration loaded'' []),
         Io (Log LError ''No private keys found in pk.txt'' [])])
   \<and> fst (main ex_libs ex_world ex_fs (Inr ex_config) (Inr [''bad!'']) [''http://p1''] [0])
       \<noteq> AbortedNoKeys"
proof -
  have k: "[''bad!''] \<noteq> []" by simp
  from empty_key_list_aborts [where l = ex_libs and world = ex_world and f = ex_fs
      and cfg = ex_config and readProxies = "[''http://p1'']" and order = "[]",
      THEN conjunct1]
    empty_key_list_aborts [where l = ex_libs and world = ex_world and f = ex_fs
      and cfg = ex_config and readProxies = "[''http://p1'']" and order = "[0]"
      and privateKeys = "[''bad!'']",
      THEN conjunct2, THEN conjunct2, THEN conjunct2, THEN conjunct2, THEN conjunct1] k
  show ?thesis by simp
qed


text \<open>
  C10. When the eligibility call throws after its retries, for a wallet whose keypair and
  signature were fine, the public-key field of the outcome is the first 4 characters of
  the private key followed by \<open>...\<close>: not \<open>unknown\<close> and, a base-58 string having no
  dot, not the derived public key. The wallet's line among the not-eligible lines is the
  private key, a colon and that truncated key. When the file system accepts the writes,
  \<open>saveResults\<close> writes \<open>result/noteligible.txt\<close> with that line as one of its lines,
  for any results that hold the outcome; and a run of \<open>main\<close> in which this is the wallet
  of some index holds the outcome in its results and writes the file with that line.
\<close>

theorem exhausted_retries_truncated_key:
  assumes r: "0 \<le> retries (retryOptions cfg)"
    and key: "privateKey \<noteq> []"
    and kp: "createKeypairFromPrivateKey l privateKey = (Some kp, ios1)"
    and sd: "signMessage l kp (signatureMessage cfg) = (Some sd, ios2)"
    and thr: "fst (checkEligibilityWithRetry (proxyAgent l) (post t) (rndApi t) sd
                    (publicKeyBase58 kp) (assignProxy cfg proxies index) cfg (retryOptions cfg))
                = Inl e"
  shows "\<exists>x msg. e = Error msg
    \<and> fst (walletTask l t cfg proxies privateKeys privateKey index) = Inr x
    \<and> x = \<lparr>res_publicKey = take 4 privateKey @ ''...'', res_eligible = False, res_amount = None,
            res_error = Some msg, res_privateKey = privateKey\<rparr>
    \<and> res_publicKey x \<noteq> ''unknown''
    \<and> (CHR ''.'' \<notin> set (publicKeyBase58 kp) \<longrightarrow> res_publicKey x \<noteq> publicKeyBase58 kp)
    \<and> notEligibleWallets [x] = [privateKey @ '':'' @ take 4 privateKey @ ''...'']
    \<and> (\<forall>results. x \<in> set results
          \<longrightarrow> privateKey @ '':'' @ take 4 privateKey @ ''...'' \<in> set (notEligibleWallets results))
    \<and> (\<forall>f results.
          x \<in> set results
          \<and> ensureDir f ''result'' = None
          \<and> (\<forall>content. writeFile f ''result/eligible.txt'' content = None)
          \<and> (\<forall>content. writeFile f ''result/noteligible.txt'' content = None)
        \<longrightarrow> (\<exists>pre suf.
               (''result/noteligible.txt'',
                pre @ (privateKey @ '':'' @ take 4 privateKey @ ''...'') @ suf)
                 \<in> set (writes (map Io (saveResults f results)))
             \<and> (pre = [] \<or> (\<exists>p. pre = p @ newline))
             \<and> (suf = [] \<or> (\<exists>s. suf = newline @ s))))
    \<and> (\<forall>world f readProxies order.
          t = world index
          \<and> proxies = (if enableProxy cfg then readProxies else [])
          \<and> index < length privateKeys \<and> privateKeys ! index = privateKey
          \<and> 1 \<le> concurrency cfg \<and> completion_order (length privateKeys) order
          \<and> ensureDir f ''result'' = None
          \<and> (\<forall>content. writeFile f ''result/eligible.txt'' content = None)
          \<and> (\<forall>content. writeFile f ''result/noteligible.txt'' content = None)
        \<longrightarrow> (\<exists>results pre suf.
               fst (main l world f (Inr cfg) (Inr privateKeys) readProxies order)
                 = Completed results
             \<and> x \<in> set results
             \<and> (''result/noteligible.txt'',
                pre @ (privateKey @ '':'' @ take 4 privateKey @ ''...'') @ suf)
                 \<in> set (writes (snd (main l world f (Inr cfg) (Inr privateKeys)
                                        readProxies order)))
             \<and> (pre = [] \<or> (\<exists>p. pre = p @ newline))
             \<and> (suf = [] \<or> (\<exists>s. suf = newline @ s))))"
proof -
  let ?retry = "checkEligibilityWithRetry (proxyAgent l) (post t) (rndApi t) sd
                    (publicKeyBase58 kp) (assignProxy cfg proxies index) cfg (retryOptions cfg)"
  let ?line = "privateKey @ '':'' @ take 4 privateKey @ ''...''"
  from r have "int 0 \<le> retries (retryOptions cfg)" by simp
  from checkEligibilityWithRetry_loop_throws_Error [OF this] thr
  obtain msg where e: "e = Error msg"
    unfolding checkEligibilityWithRetry_def by blast
  let ?w = "\<lparr>res_publicKey = take 4 privateKey @ ''...'', res_eligible = False,
             res_amount = None, res_error = Some msg\<rparr>"
  let ?x = "\<lparr>res_publicKey = take 4 privateKey @ ''...'', res_eligible = False,
             res_amount = None, res_error = Some msg, res_privateKey = privateKey\<rparr>"
  from e thr obtain evs3 where "?retry = (Inl (Error msg), evs3)" by (cases ?retry) simp
  from checkWalletEligibility_api_throws [OF r kp sd this] key
  have cwe: "fst (checkWalletEligibility l t privateKey (assignProxy cfg proxies index) cfg)
               = Inr ?w" by simp
  from walletTask_returns [OF this, of privateKeys]
  have task: "fst (walletTask l t cfg proxies privateKeys privateKey index) = Inr ?x"
    by simp
  have unknown: "take 4 privateKey @ ''...'' \<noteq> ''unknown''"
  proof
    assume "take 4 privateKey @ ''...'' = ''unknown''"
    then have "last (take 4 privateKey @ ''...'') = last ''unknown''" by (rule arg_cong)
    then show False by simp
  qed
  have derived: "take 4 privateKey @ ''...'' \<noteq> publicKeyBase58 kp"
    if "CHR ''.'' \<notin> set (publicKeyBase58 kp)"
  proof
    assume "take 4 privateKey @ ''...'' = publicKeyBase58 kp"
    then have "set (take 4 privateKey @ ''...'') = set (publicKeyBase58 kp)" by (rule arg_cong)
    with that show False by auto
  qed
  have line: "notEligibleWallets [?x] = [?line]"
    by (simp add: notEligibleWallets_def)
  have written: "?line \<in> set (notEligibleWallets results)" if "?x \<in> set results" for results
    using that by (force simp: notEligibleWallets_def)
  have saved: "\<exists>pre suf.
               (''result/noteligible.txt'', pre @ ?line @ suf)
                 \<in> set (writes (map Io (saveResults f results)))
             \<and> (pre = [] \<or> (\<exists>p. pre = p @ newline))
             \<and> (suf = [] \<or> (\<exists>s. suf = newline @ s))"
    if x: "?x \<in> set results"
      and d: "ensureDir f ''result'' = None"
      and w1: "\<forall>content. writeFile f ''result/eligible.txt'' content = None"
      and w2: "\<forall>content. writeFile f ''result/noteligible.txt'' content = None"
    for f results
  proof -
    from d w1 w2 have "writes (map Io (saveResults f results)) =
           [(''result/eligible.txt'', join newline (eligibleWallets results)),
            (''result/noteligible.txt'', join newline (notEligibleWallets results))]"
      by (intro writes_saveResults) simp_all
    then have "(''result/noteligible.txt'', join newline (notEligibleWallets results))
                 \<in> set (writes (map Io (saveResults f results)))" by simp
    moreover from join_contains_line [OF written [OF x], of newline]
    obtain pre suf where "join newline (notEligibleWallets results) = pre @ ?line @ suf"
      and "pre = [] \<or> (\<exists>p. pre = p @ newline)" and "suf = [] \<or> (\<exists>s. suf = newline @ s)"
      by blast
    ultimately show ?thesis by auto
  qed
  have run: "\<exists>results pre suf.
               fst (main l world f (Inr cfg) (Inr privateKeys) readProxies order)
                 = Completed results
             \<and> ?x \<in> set results
             \<and> (''result/noteligible.txt'', pre @ ?line @ suf)
                 \<in> set (writes (snd (main l world f (Inr cfg) (Inr privateKeys)
                                        readProxies order)))
             \<and> (pre = [] \<or> (\<exists>p. pre = p @ newline))
             \<and> (suf = [] \<or> (\<exists>s. suf = newline @ s))"
    if t: "t = world index"
      and p: "proxies = (if enableProxy cfg then readProxies else [])"
      and i: "index < length privateKeys" and ki: "privateKeys ! index = privateKey"
      and c: "1 \<le> concurrency cfg" and o: "completion_order (length privateKeys) order"
      and d: "ensureDir f ''result'' = None"
      and w1: "\<forall>content. writeFile f ''result/eligible.txt'' content = None"
      and w2: "\<forall>content. writeFile f ''result/noteligible.txt'' content = None"
    for world f readProxies order
  proof -
    from i have k: "privateKeys \<noteq> []" by auto
    note m = main_completes [where l = l and world = world and readProxies = readProxies,
        OF r c k o, folded p]
    from cwe t ki
    have "fst (checkWalletEligibility l (world index) (privateKeys ! index)
                 (assignProxy cfg proxies index) cfg) = Inr ?w" by simp
    from m(6) [OF i this] ki
    have x: "?x \<in> set (map (\<lambda>i. projr (fst (walletTask l (world i) cfg proxies privateKeys
                                        (privateKeys ! i) i))) order)" by simp
    from saved [OF x d w1 w2] m(2) [where f = f] m(1) [where f = f] x
    show ?thesis by auto
  qed
  show ?thesis
  proof (rule exI [of _ ?x], rule exI [of _ msg], intro conjI)
    show "e = Error msg" by (rule e)
    show "fst (walletTask l t cfg proxies privateKeys privateKey index) = Inr ?x" by (rule task)
    show "?x = ?x" ..
    show "res_publicKey ?x \<noteq> ''unknown''" using unknown by simp
    show "CHR ''.'' \<notin> set (publicKeyBase58 kp) \<longrightarrow> res_publicKey ?x \<noteq> publicKeyBase58 kp"
      using derived by simp
    show "notEligibleWallets [?x] = [?line]" by (rule line)
    show "\<forall>results. ?x \<in> set results \<longrightarrow> ?line \<in> set (notEligibleWallets results)"
      using written by simp
    show "\<forall>f results.
          ?x \<in> set results
          \<and> ensureDir f ''result'' = None
          \<and> (\<forall>content. writeFile f ''result/eligible.txt'' content = None)
          \<and> (\<forall>content. writeFile f ''result/noteligible.txt'' content = None)
        \<longrightarrow> (\<exists>pre suf.
               (''result/noteligible.txt'', pre @ ?line @ suf)
                 \<in> set (writes (map Io (saveResults f results)))
             \<and> (pre = [] \<or> (\<exists>p. pre = p @ newline))
             \<and> (suf = [] \<or> (\<exists>s. suf = newline @ s)))"
    proof (intro allI impI, elim conjE)
      fix f :: fs and results :: "outcome list"
      assume "?x \<in> set results" "ensureDir f ''result'' = None"
        "\<forall>content. writeFile f ''result/eligible.txt'' content = None"
        "\<forall>content. writeFile f ''result/noteligible.txt'' content = None"
      then show "\<exists>pre suf.
               (''result/noteligible.txt'', pre @ ?line @ suf)
                 \<in> set (writes (map Io (saveResults f results)))
             \<and> (pre = [] \<or> (\<exists>p. pre = p @ newline))
             \<and> (suf = [] \<or> (\<exists>s. suf = newline @ s))"
        by (rule saved)
    qed
    show "\<forall>world f readProxies order.
          t = world index
          \<and> proxies = (if enableProxy cfg then readProxies else [])
          \<and> index < length privateKeys \<and> privateKeys ! index = privateKey
          \<and> 1 \<le> concurrency cfg \<and> completion_order (length privateKeys) order
          \<and> ensureDir f ''result'' = None
          \<and> (\<forall>content. writeFile f ''result/eligible.txt'' content = None)
          \<and> (\<forall>content. writeFile f ''result/noteligible.txt'' content = None)
        \<longrightarrow> (\<exists>results pre suf.
               fst (main l world f (Inr cfg) (Inr privateKeys) readProxies order)
                 = Completed results
             \<and> ?x \<in> set results
             \<and> (''result/noteligible.txt'', pre @ ?line @ suf)
                 \<in> set (writes (snd (main l world f (Inr cfg) (Inr privateKeys)
                                        readProxies order)))
             \<and> (pre = [] \<or> (\<exists>p. pre = p @ newline))
             \<and> (suf = [] \<or> (\<exists>s. suf = newline @ s)))"
    proof (intro allI impI, elim conjE)
      fix world :: "nat \<Rightarrow> task" and f :: fs and readProxies :: "string list"
        and order :: "nat list"
      assume "t = world index" "proxies = (if enableProxy cfg then readProxies else [])"
        "index < length privateKeys" "privateKeys ! index = privateKey"
        "1 \<le> concurrency cfg" "completion_order (length privateKeys) order"
        "ensureDir f ''result'' = None"
        "\<forall>content. writeFile f ''result/eligible.txt'' content = None"
        "\<forall>content. writeFile f ''result/noteligible.txt'' content = None"
      then show "\<exists>results pre suf.
               fst (main l world f (Inr cfg) (Inr privateKeys) readProxies order)
                 = Completed results
             \<and> ?x \<in> set results
             \<and> (''result/noteligible.txt'', pre @ ?line @ suf)
                 \<in> set (writes (snd (main l world f (Inr cfg) (Inr privateKeys)
                                        readProxies order)))
             \<and> (pre = [] \<or> (\<exists>p. pre = p @ newline))
             \<and> (suf = [] \<or> (\<exists>s. suf = newline @ s))"
        by (rule run)
    qed
  qed
qed


theorem exhausted_retries_truncated_key_witness:
  "fst (walletTask ex_libs ex_task ex_config [''http://p1''] [''key1'', ''bad!''] ''key1'' 0)
     = Inr \<lparr>res_publicKey = ''key1...'', res_eligible = False, res_amount = None,
            res_error = Some ''No response from API: timeout of 30000ms exceeded'',
            res_privateKey = ''key1''\<rparr>
   \<and> notEligibleWallets
       [projr (fst (walletTask ex_libs ex_task ex_config [''http://p1''] [''key1'', ''bad!'']
                      ''key1'' 0))]
     = [''key1:key1...'']
   \<and> (\<exists>results pre suf.
         fst (main ex_libs ex_world ex_fs (Inr ex_config) (Inr [''key1'', ''bad!''])
                [''http://p1''] [1, 0]) = Completed results
       \<and> \<lparr>res_publicKey = ''key1...'', res_eligible = False, res_amount = None,
           res_error = Some ''No response from API: timeout of 30000ms exceeded'',
           res_privateKey = ''key1''\<rparr> \<in> set results
       \<and> (''result/noteligible.txt'', pre @ ''key1:key1...'' @ suf)
           \<in> set (writes (snd (main ex_libs ex_world ex_fs (Inr ex_config)
                                  (Inr [''key1'', ''bad!'']) [''http://p1''] [1, 0]))))
   \<and> writes (snd (main ex_libs ex_world ex_fs (Inr ex_config) (Inr [''key1'', ''bad!''])
                     [''http://p1''] [1, 0]))
       = [(''result/eligible.txt'', []),
          (''result/noteligible.txt'', ''bad!:unknown'' @ newline @ ''key1:key1...'')]"
proof -
  let ?keys = "[''key1'', ''bad!'']"
  let ?kp = "\<lparr>publicKeyBase58 = ''PUB1'', secretKey = map of_char ''key1''\<rparr>"
  let ?bad = "\<lparr>res_publicKey = ''unknown'', res_eligible = False, res_amount = None,
               res_error = Some ''Failed to create keypair'', res_privateKey = ''bad!''\<rparr>"
  let ?good = "\<lparr>res_publicKey = ''key1...'', res_eligible = False, res_amount = None,
           res_error = Some ''No response from API: timeout of 30000ms exceeded'',
           res_privateKey = ''key1''\<rparr>"
  have r: "0 \<le> retries (retryOptions ex_config)"
    by (simp add: ex_config_def ex_retryOptions_def)
  have c: "1 \<le> concurrency ex_config" by (simp add: ex_config_def)
  have k: "?keys \<noteq> []" by simp
  have o: "completion_order (length ?keys) [1, 0]" by code_simp
  have key: "''key1'' \<noteq> []" by simp
  have kp: "createKeypairFromPrivateKey ex_libs ''key1'' = (Some ?kp, [])"
    by (simp add: createKeypairFromPrivateKey_def ex_libs_def)
  have sd: "signMessage ex_libs ?kp (signatureMessage ex_config) = (Some ex_signed, [])"
    by (simp add: signMessage_def ex_libs_def ex_signed_def)
  have p: "assignProxy ex_config [''http://p1''] 0 = Some ''http://p1''"
    by (simp add: assignProxy_def ex_config_def)
  have en: "(if enableProxy ex_config then [''http://p1''] else []) = [''http://p1'']"
    by (simp add: ex_config_def)
  have cl: "fst (createApiClient (proxyAgent ex_libs) (Some ''http://p1'') ex_config)
              = Inr (Some ''http://p1'', userAgent ex_config)"
    by (simp add: createApiClient_def ex_libs_def)
  have call: "fst (checkPawsEligibility (proxyAgent ex_libs) (post ex_task n) ex_signed
                     (publicKeyBase58 ?kp) (Some ''http://p1'') ex_config)
                = Inl (Error (''No response from API: '' @ ''timeout of 30000ms exceeded''))" for n
    by (rule checkPawsEligibility_no_response [OF cl]) (simp add: ex_task_def)
  from r have "int 0 \<le> retries (retryOptions ex_config)" by simp
  from checkEligibilityWithRetry_loop_all_fail
    [where errs = "\<lambda>n. ''No response from API: '' @ ''timeout of 30000ms exceeded''"
       and rnd = "rndApi ex_task" and lastError = Undefined, OF this] call
  have thr: "fst (checkEligibilityWithRetry (proxyAgent ex_libs) (post ex_task) (rndApi ex_task)
                    ex_signed (publicKeyBase58 ?kp) (assignProxy ex_config [''http://p1''] 0)
                    ex_config (retryOptions ex_config))
               = Inl (Error (''No response from API: '' @ ''timeout of 30000ms exceeded''))"
    unfolding p by (simp add: checkEligibilityWithRetry_def)
  have f: "ensureDir ex_fs ''result'' = None
         \<and> (\<forall>content. writeFile ex_fs ''result/eligible.txt'' content = None)
         \<and> (\<forall>content. writeFile ex_fs ''result/noteligible.txt'' content = None)"
    by (simp add: ex_fs_def)
  have bk: "createKeypairFromPrivateKey ex_libs ''bad!''
             = (None, [Log LError ''Failed to create keypair: Non-base58 character'' []])"
    by (simp add: createKeypairFromPrivateKey_def ex_libs_def)
  have bad: "fst (walletTask ex_libs ex_task ex_config [''http://p1''] ?keys ''bad!'' idx)
               = Inr ?bad" for idx
  proof -
    from checkWalletEligibility_no_keypair
      [OF r bk, of ex_task "assignProxy ex_config [''http://p1''] idx"]
    have "fst (checkWalletEligibility ex_libs ex_task ''bad!''
                 (assignProxy ex_config [''http://p1''] idx) ex_config)
            = Inr \<lparr>res_publicKey = ''unknown'', res_eligible = False, res_amount = None,
                   res_error = Some ''Failed to create keypair''\<rparr>" by simp
    from walletTask_returns [OF this, of ?keys] show ?thesis by simp
  qed
  from exhausted_retries_truncated_key [OF r key kp sd thr, of ?keys]
  show ?thesis
  proof (elim exE conjE)
    fix x msg
    assume em: "Error (''No response from API: '' @ ''timeout of 30000ms exceeded'') = Error msg"
      and tk: "fst (walletTask ex_libs ex_task ex_config [''http://p1''] ?keys ''key1'' 0) = Inr x"
      and xd: "x = \<lparr>res_publicKey = take 4 ''key1'' @ ''...'', res_eligible = False,
                    res_amount = None, res_error = Some msg, res_privateKey = ''key1''\<rparr>"
      and rn: "\<forall>world f readProxies order.
          ex_task = world 0
          \<and> [''http://p1''] = (if enableProxy ex_config then readProxies else [])
          \<and> 0 < length ?keys \<and> ?keys ! 0 = ''key1''
          \<and> 1 \<le> concurrency ex_config \<and> completion_order (length ?keys) order
          \<and> ensureDir f ''result'' = None
          \<and> (\<forall>content. writeFile f ''result/eligible.txt'' content = None)
          \<and> (\<forall>content. writeFile f ''result/noteligible.txt'' content = None)
        \<longrightarrow> (\<exists>results pre suf.
               fst (main ex_libs world f (Inr ex_config) (Inr ?keys) readProxies order)
                 = Completed results
             \<and> x \<in> set results
             \<and> (''result/noteligible.txt'',
                pre @ (''key1'' @ '':'' @ take 4 ''key1'' @ ''...'') @ suf)
                 \<in> set (writes (snd (main ex_libs world f (Inr ex_config) (Inr ?keys)
                                        readProxies order)))
             \<and> (pre = [] \<or> (\<exists>p. pre = p @ newline))
             \<and> (suf = [] \<or> (\<exists>s. suf = newline @ s)))"
    from em xd have x: "x = ?good" by simp
    with tk have good: "fst (walletTask ex_libs ex_task ex_config [''http://p1''] ?keys ''key1'' 0)
                          = Inr ?good" by simp
    then have one: "notEligibleWallets
       [projr (fst (walletTask ex_libs ex_task ex_config [''http://p1''] ?keys ''key1'' 0))]
         = [''key1:key1...'']"
      by (simp add: notEligibleWallets_def)
    have pre: "ex_task = ex_world 0
          \<and> [''http://p1''] = (if enableProxy ex_config then [''http://p1''] else [])
          \<and> 0 < length ?keys \<and> ?keys ! 0 = ''key1''
          \<and> 1 \<le> concurrency ex_config \<and> completion_order (length ?keys) [1, 0]
          \<and> ensureDir ex_fs ''result'' = None
          \<and> (\<forall>content. writeFile ex_fs ''result/eligible.txt'' content = None)
          \<and> (\<forall>content. writeFile ex_fs ''result/noteligible.txt'' content = None)"
      using c o f en by (simp add: ex_world_def)
    from rn [THEN spec [where x = ex_world], THEN spec [where x = ex_fs],
        THEN spec [where x = "[''http://p1'']"], THEN spec [where x = "[1, 0]"], THEN mp, OF pre]
    obtain results pre suf where
      "fst (main ex_libs ex_world ex_fs (Inr ex_config) (Inr ?keys) [''http://p1''] [1, 0])
         = Completed results"
      "x \<in> set results"
      "(''result/noteligible.txt'', pre @ (''key1'' @ '':'' @ take 4 ''key1'' @ ''...'') @ suf)
         \<in> set (writes (snd (main ex_libs ex_world ex_fs (Inr ex_config) (Inr ?keys)
                                [''http://p1''] [1, 0])))"
      by blast
    with x have inrun: "\<exists>results pre suf.
         fst (main ex_libs ex_world ex_fs (Inr ex_config) (Inr ?keys) [''http://p1''] [1, 0])
           = Completed results
       \<and> ?good \<in> set results
       \<and> (''result/noteligible.txt'', pre @ ''key1:key1...'' @ suf)
           \<in> set (writes (snd (main ex_libs ex_world ex_fs (Inr ex_config)
                                  (Inr ?keys) [''http://p1''] [1, 0])))"
      by auto
    have res: "map (\<lambda>i. projr (fst (walletTask ex_libs (ex_world i) ex_config
                  (if enableProxy ex_config then [''http://p1''] else []) ?keys (?keys ! i) i)))
                 [1, 0] = [?bad, ?good]"
      unfolding en using bad good by (simp add: ex_world_def)
    from main_completes(2) [where l = ex_libs and world = ex_world
        and readProxies = "[''http://p1'']" and f = ex_fs, OF r c k o]
    have "writes (snd (main ex_libs ex_world ex_fs (Inr ex_config) (Inr ?keys)
                        [''http://p1''] [1, 0]))
            = writes (map Io (saveResults ex_fs [?bad, ?good]))"
      unfolding res .
    also have "\<dots> = [(''result/eligible.txt'', []),
          (''result/noteligible.txt'', ''bad!:unknown'' @ newline @ ''key1:key1...'')]"
      by (simp add: saveResults_def eligibleWallets_def notEligibleWallets_def ex_fs_def Let_def)
    finally have files: "writes (snd (main ex_libs ex_world ex_fs (Inr ex_config) (Inr ?keys)
                        [''http://p1''] [1, 0]))
       = [(''result/eligible.txt'', []),
          (''result/noteligible.txt'', ''bad!:unknown'' @ newline @ ''key1:key1...'')]" .
    from good one inrun files show ?thesis by (intro conjI)
  qed
qed

end
